theory Spec2Isabelle
  imports Main "HOL-Library.Word"
begin

section \<open>Python values: text, bytes, exceptions\<close>

text \<open>
  A Python \<open>str\<close> is a sequence of code points and a \<open>bytes\<close> object a sequence of
  octets. Literals of the source are written with \<open>str_lit\<close>, so that
  \<open>str_lit ''cache:''\<close> is the text \<open>"cache:"\<close>.
\<close>

type_synonym pystr = "nat list"

type_synonym bytes = "8 word list"

definition str_lit :: "string \<Rightarrow> pystr" where
  "str_lit s = map of_char s"

text \<open>
  The exceptions that can leave the wrapper. The source raises none itself: the first
  three come out of the calls it makes (the client encoding an argument, \<open>bytes.decode\<close>,
  an error reply of the store), the others stand for whatever the wrapped function raises.
\<close>

datatype exn =
    UnicodeEncodeError
  | UnicodeDecodeError
  | ResponseError
  | ConnectionError
  | Timeout
  | Raised string

subsection \<open>UTF-8, strict, as \<open>str.encode\<close> and \<open>bytes.decode\<close> apply it\<close>

definition is_surrogate :: "nat \<Rightarrow> bool" where
  "is_surrogate c = (0xD800 \<le> c \<and> c < 0xE000)"

text \<open>Text that strict UTF-8 can encode: scalar values only, no lone surrogate.\<close>

definition unicode_text :: "pystr \<Rightarrow> bool" where
  "unicode_text s = list_all (\<lambda>c. c < 0x110000 \<and> \<not> is_surrogate c) s"

definition encode_cp :: "nat \<Rightarrow> bytes option" where
  "encode_cp c =
     (if c < 0x80 then Some [of_nat c]
      else if c < 0x800 then Some [of_nat (0xC0 + c div 64), of_nat (0x80 + c mod 64)]
      else if c < 0x10000 then
        (if is_surrogate c then None
         else Some [of_nat (0xE0 + c div 4096), of_nat (0x80 + c div 64 mod 64),
                    of_nat (0x80 + c mod 64)])
      else if c < 0x110000 then
        Some [of_nat (0xF0 + c div 262144), of_nat (0x80 + c div 4096 mod 64),
              of_nat (0x80 + c div 64 mod 64), of_nat (0x80 + c mod 64)]
      else None)"

fun utf8_encode :: "pystr \<Rightarrow> bytes option" where
  "utf8_encode [] = Some []"
| "utf8_encode (c # cs) =
     (case encode_cp c of
        None \<Rightarrow> None
      | Some bs \<Rightarrow> (case utf8_encode cs of None \<Rightarrow> None | Some r \<Rightarrow> Some (bs @ r)))"

definition is_cont :: "8 word \<Rightarrow> bool" where
  "is_cont b = (0x80 \<le> unat b \<and> unat b < 0xC0)"

text \<open>
  One code point off the front of a byte string, with the rest. The strict decoder
  refuses a stray continuation byte, a truncated sequence, an overlong form, a surrogate
  and anything above U+10FFFF.
\<close>

fun decode_cp :: "bytes \<Rightarrow> (nat \<times> bytes) option" where
  "decode_cp [] = None"
| "decode_cp (b0 # bs) =
     (let n0 = unat b0 in
      if n0 < 0x80 then Some (n0, bs)
      else if n0 < 0xC2 then None
      else if n0 < 0xE0 then
        (case bs of
           b1 # r \<Rightarrow>
             if is_cont b1 then Some ((n0 - 0xC0) * 64 + (unat b1 - 0x80), r) else None
         | _ \<Rightarrow> None)
      else if n0 < 0xF0 then
        (case bs of
           b1 # b2 # r \<Rightarrow>
             (let c = (n0 - 0xE0) * 4096 + (unat b1 - 0x80) * 64 + (unat b2 - 0x80) in
              if is_cont b1 \<and> is_cont b2 \<and> 0x800 \<le> c \<and> \<not> is_surrogate c
              then Some (c, r) else None)
         | _ \<Rightarrow> None)
      else if n0 < 0xF5 then
        (case bs of
           b1 # b2 # b3 # r \<Rightarrow>
             (let c = (n0 - 0xF0) * 262144 + (unat b1 - 0x80) * 4096
                      + (unat b2 - 0x80) * 64 + (unat b3 - 0x80) in
              if is_cont b1 \<and> is_cont b2 \<and> is_cont b3 \<and> 0x10000 \<le> c \<and> c < 0x110000
              then Some (c, r) else None)
         | _ \<Rightarrow> None)
      else None)"

lemma decode_cp_shorter: "decode_cp bs = Some (c, r) \<Longrightarrow> length r < length bs"
  by (cases bs) (auto simp: Let_def split: if_splits list.splits)

function utf8_decode :: "bytes \<Rightarrow> pystr option" where
  "utf8_decode [] = Some []"
| "utf8_decode (b # bs) =
     (case decode_cp (b # bs) of
        None \<Rightarrow> None
      | Some (c, r) \<Rightarrow> (case utf8_decode r of None \<Rightarrow> None | Some cs \<Rightarrow> Some (c # cs)))"
  by pat_completeness auto
termination
  by (relation "measure length") (auto dest: decode_cp_shorter simp del: decode_cp.simps)

subsection \<open>Decimal integers, as the store keeps a counter\<close>

text \<open>
  The store holds every value as a byte string. \<open>INCR\<close> reads the string as a signed
  64-bit decimal integer in canonical form (an optional minus sign, no leading zero, no
  plus sign, no blank) and writes the new value back in the same form.
\<close>

fun digits :: "nat \<Rightarrow> nat list" where
  "digits n = (if n < 10 then [n] else digits (n div 10) @ [n mod 10])"

declare digits.simps [simp del]

definition digit_byte :: "nat \<Rightarrow> 8 word" where
  "digit_byte d = of_nat (0x30 + d)"

definition ll2string :: "int \<Rightarrow> bytes" where
  "ll2string i =
     (if i < 0 then 0x2D # map digit_byte (digits (nat (- i)))
      else map digit_byte (digits (nat i)))"

definition is_digit :: "8 word \<Rightarrow> bool" where
  "is_digit b = (0x30 \<le> unat b \<and> unat b \<le> 0x39)"

fun digits_val :: "bytes \<Rightarrow> nat \<Rightarrow> nat option" where
  "digits_val [] acc = Some acc"
| "digits_val (b # bs) acc =
     (if is_digit b then digits_val bs (acc * 10 + (unat b - 0x30)) else None)"

definition parse_positive :: "bytes \<Rightarrow> nat option" where
  "parse_positive bs =
     (case bs of
        [] \<Rightarrow> None
      | b # rest \<Rightarrow>
          if 0x31 \<le> unat b \<and> unat b \<le> 0x39 then digits_val rest (unat b - 0x30) else None)"

definition string2ll :: "bytes \<Rightarrow> int option" where
  "string2ll bs =
     (case bs of
        [] \<Rightarrow> None
      | b # rest \<Rightarrow>
          if bs = [0x30] then Some 0
          else if b = 0x2D then
            (case parse_positive rest of
               None \<Rightarrow> None
             | Some v \<Rightarrow> if v \<le> 2 ^ 63 then Some (- int v) else None)
          else
            (case parse_positive bs of
               None \<Rightarrow> None
             | Some v \<Rightarrow> if v < 2 ^ 63 then Some (int v) else None))"

section \<open>The key-value store and the world around a call\<close>

text \<open>
  The store is the Redis server the source reaches through \<open>redis.Redis()\<close>. It is no
  code of the repository: its three commands below follow the store interface the
  specification names (\<open>INCR(key) -> int\<close>, \<open>GET(key) -> bytes | absent\<close>,
  \<open>SET-WITH-EXPIRY(key, value, ttl_seconds)\<close>) and the documented behaviour of the Redis
  commands \<open>INCR\<close>, \<open>GET\<close> and \<open>SETEX\<close> as the Python client issues them. The store is
  taken to be reachable and to hold string values only, so a command fails only where the
  client cannot encode an argument or the server replies with an error.

  An entry is a value and, when the key is volatile, the last second of the world's clock
  at which the key is still there: an entry written at second \<open>T\<close> with a time to live of
  \<open>E\<close> seconds is seen up to second \<open>T + E\<close> and is gone after it. An expired entry may
  still sit in the table: every command reads through \<open>lookup\<close>, which does not see it.
  The table is indexed by key name; the server indexes by the UTF-8 bytes of the name, which
  determine the name (\<open>utf8_encode_inj\<close> below).

  Besides the store, the world holds the clock and a trace of the effects so far: every
  command sent to the store and every invocation of the wrapped function, in order. The
  trace is what "is invoked once", "is not invoked" and "before the lookup" are about.
\<close>

record entry =
  data :: bytes
  expire_at :: "nat option"

datatype effect =
    Incr pystr
  | Get pystr
  | Setex pystr int bytes
  | Fetch pystr

record world =
  store :: "pystr \<Rightarrow> entry option"
  clock :: nat
  trace :: "effect list"

definition live :: "nat \<Rightarrow> entry \<Rightarrow> bool" where
  "live now e = (case expire_at e of None \<Rightarrow> True | Some t \<Rightarrow> now \<le> t)"

definition lookup :: "world \<Rightarrow> pystr \<Rightarrow> entry option" where
  "lookup w k =
     (case store w k of
        None \<Rightarrow> None
      | Some e \<Rightarrow> if live (clock w) e then Some e else None)"

text \<open>
  \<open>redis_client.incr(name)\<close>. The client encodes the key name (and raises when it cannot);
  the server creates an absent key at 1 with no expiry, adds one to a key that holds an
  integer and keeps its expiry, and replies with an error when the value is no integer
  or the sum leaves the 64-bit range.
\<close>

definition redis_incr :: "pystr \<Rightarrow> world \<Rightarrow> (exn + int) \<times> world" where
  "redis_incr name w =
     (case utf8_encode name of
        None \<Rightarrow> (Inl UnicodeEncodeError, w)
      | Some _ \<Rightarrow>
          (let w' = w\<lparr>trace := trace w @ [Incr name]\<rparr> in
           case lookup w name of
             None \<Rightarrow>
               (Inr 1, w'\<lparr>store := (store w)(name \<mapsto> \<lparr>data = ll2string 1, expire_at = None\<rparr>)\<rparr>)
           | Some e \<Rightarrow>
               (case string2ll (data e) of
                  None \<Rightarrow> (Inl ResponseError, w')
                | Some i \<Rightarrow>
                    if i = 2 ^ 63 - 1 then (Inl ResponseError, w')
                    else (Inr (i + 1),
                          w'\<lparr>store := (store w)(name \<mapsto> e\<lparr>data := ll2string (i + 1)\<rparr>)\<rparr>))))"

text \<open>\<open>redis_client.get(name)\<close>: the bytes of a live key, \<open>None\<close> for any other.\<close>

definition redis_get :: "pystr \<Rightarrow> world \<Rightarrow> (exn + bytes option) \<times> world" where
  "redis_get name w =
     (case utf8_encode name of
        None \<Rightarrow> (Inl UnicodeEncodeError, w)
      | Some _ \<Rightarrow> (Inr (map_option data (lookup w name)), w\<lparr>trace := trace w @ [Get name]\<rparr>))"

text \<open>
  \<open>redis_client.setex(name, time, value)\<close>. The client encodes the name and the text
  value; the server refuses a time that is not positive, and otherwise stores the bytes
  under the name, to expire \<open>time\<close> seconds from now.
\<close>

definition redis_setex :: "pystr \<Rightarrow> int \<Rightarrow> pystr \<Rightarrow> world \<Rightarrow> (exn + unit) \<times> world" where
  "redis_setex name time val w =
     (case utf8_encode name of
        None \<Rightarrow> (Inl UnicodeEncodeError, w)
      | Some _ \<Rightarrow>
          (case utf8_encode val of
             None \<Rightarrow> (Inl UnicodeEncodeError, w)
           | Some bs \<Rightarrow>
               (let w' = w\<lparr>trace := trace w @ [Setex name time bs]\<rparr> in
                if time \<le> 0 then (Inl ResponseError, w')
                else (Inr (),
                      w'\<lparr>store := (store w)(name \<mapsto>
                            \<lparr>data = bs, expire_at = Some (clock w + nat time)\<rparr>)\<rparr>))))"

section \<open>The decorator\<close>

text \<open>
  The wrapped function reaches outside the program, so one invocation of it is an
  outcome handed in from the world: the seconds the call takes and what it returns or
  raises.
\<close>

type_synonym fetcher = "pystr \<Rightarrow> nat \<times> (exn + pystr)"

definition invoke :: "fetcher \<Rightarrow> pystr \<Rightarrow> world \<Rightarrow> (exn + pystr) \<times> world" where
  "invoke func url w =
     (case func url of
        (d, r) \<Rightarrow> (r, w\<lparr>clock := clock w + d, trace := trace w @ [Fetch url]\<rparr>))"

text \<open>Truth value of what \<open>get\<close> returned: \<open>None\<close> and \<open>b''\<close> are false.\<close>

definition truthy :: "bytes option \<Rightarrow> bool" where
  "truthy r = (case r of None \<Rightarrow> False | Some bs \<Rightarrow> bs \<noteq> [])"

definition cache_key :: "pystr \<Rightarrow> pystr" where
  "cache_key url = str_lit ''cache:'' @ url"

definition count_key :: "pystr \<Rightarrow> pystr" where
  "count_key url = str_lit ''count:'' @ url"

text \<open>
  \<open>wrapper\<close>, with the two variables it closes over (\<open>expiration\<close>, \<open>func\<close>) as
  arguments. Each step that raises ends the call with the world as it is then. Where
  \<open>cached_result\<close> is true it is \<open>Some\<close> bytes, so \<open>the\<close> is applied to \<open>Some\<close> only.
\<close>

definition wrapper :: "int \<Rightarrow> fetcher \<Rightarrow> pystr \<Rightarrow> world \<Rightarrow> (exn + pystr) \<times> world" where
  "wrapper expiration func url w =
     (case redis_incr (count_key url) w of
        (Inl e, w1) \<Rightarrow> (Inl e, w1)
      | (Inr _, w1) \<Rightarrow>
          (case redis_get (cache_key url) w1 of
             (Inl e, w2) \<Rightarrow> (Inl e, w2)
           | (Inr cached_result, w2) \<Rightarrow>
               if truthy cached_result then
                 (case utf8_decode (the cached_result) of
                    None \<Rightarrow> (Inl UnicodeDecodeError, w2)
                  | Some s \<Rightarrow> (Inr s, w2))
               else
                 (case invoke func url w2 of
                    (Inl e, w3) \<Rightarrow> (Inl e, w3)
                  | (Inr result, w3) \<Rightarrow>
                      (case redis_setex (cache_key url) expiration result w3 of
                         (Inl e, w4) \<Rightarrow> (Inl e, w4)
                       | (Inr _, w4) \<Rightarrow> (Inr result, w4)))))"

text \<open>\<open>cache_and_count(expiration)(func)\<close>; \<open>None\<close> is the argument left out.\<close>

definition cache_and_count ::
  "int option \<Rightarrow> fetcher \<Rightarrow> pystr \<Rightarrow> world \<Rightarrow> (exn + pystr) \<times> world" where
  "cache_and_count expiration func =
     wrapper (case expiration of None \<Rightarrow> 10 | Some n \<Rightarrow> n) func"

subsection \<open>\<open>get_page\<close>\<close>

text \<open>
  \<open>requests.get(url)\<close> either raises or returns a response, whatever its status code;
  the body of \<open>get_page\<close> returns the response's \<open>text\<close> and looks at nothing else.
\<close>

record response =
  status_code :: nat
  resp_text :: pystr

type_synonym http = "pystr \<Rightarrow> nat \<times> (exn + response)"

definition get_page_body :: "http \<Rightarrow> fetcher" where
  "get_page_body requests_get url =
     (case requests_get url of
        (d, Inl e) \<Rightarrow> (d, Inl e)
      | (d, Inr r) \<Rightarrow> (d, Inr (resp_text r)))"

definition get_page :: "http \<Rightarrow> pystr \<Rightarrow> world \<Rightarrow> (exn + pystr) \<times> world" where
  "get_page requests_get = cache_and_count None (get_page_body requests_get)"

section \<open>Counters, cache entries and histories\<close>

text \<open>
  \<open>CallCounter(url)\<close>: the integer kept at \<open>count:<url>\<close> without an expiry, 0 while the
  key is absent. It is undefined (\<open>None\<close>) when the key holds something that is no
  integer, or is volatile.
\<close>

definition counter :: "world \<Rightarrow> pystr \<Rightarrow> int option" where
  "counter w url =
     (case lookup w (count_key url) of
        None \<Rightarrow> Some 0
      | Some e \<Rightarrow> if expire_at e = None then string2ll (data e) else None)"

text \<open>What \<open>GET cache:<url>\<close> returns, and whether the wrapper takes it for a hit.\<close>

definition cached :: "world \<Rightarrow> pystr \<Rightarrow> bytes option" where
  "cached w url = map_option data (lookup w (cache_key url))"

definition cache_hit :: "world \<Rightarrow> pystr \<Rightarrow> bool" where
  "cache_hit w url = truthy (cached w url)"

text \<open>The effects of one call: what it added to the trace.\<close>

definition effects_since :: "world \<Rightarrow> world \<Rightarrow> effect list" where
  "effects_since w w' = drop (length (trace w)) (trace w')"

fun key_of :: "effect \<Rightarrow> pystr option" where
  "key_of (Incr k) = Some k"
| "key_of (Get k) = Some k"
| "key_of (Setex k _ _) = Some k"
| "key_of (Fetch _) = None"

text \<open>
  A history of the store's use by decorated functions: calls, each with its own
  expiration, wrapped function and argument, and time passing in between.
\<close>

datatype step = Invoke int fetcher pystr | Sleep nat

definition sleep :: "nat \<Rightarrow> world \<Rightarrow> world" where
  "sleep d w = w\<lparr>clock := clock w + d\<rparr>"

fun run :: "step list \<Rightarrow> world \<Rightarrow> world" where
  "run [] w = w"
| "run (Invoke expiration func url # ss) w = run ss (snd (wrapper expiration func url w))"
| "run (Sleep d # ss) w = run ss (sleep d w)"

fun invocations :: "step list \<Rightarrow> pystr \<Rightarrow> nat" where
  "invocations [] url = 0"
| "invocations (Invoke _ _ u # ss) url = (if u = url then 1 else 0) + invocations ss url"
| "invocations (Sleep _ # ss) url = invocations ss url"

text \<open>
  \<open>counter_ok\<close>: \<open>INCR count:<url>\<close> will succeed, the counter being defined and below the
  largest 64-bit integer.
\<close>

definition counter_ok :: "world \<Rightarrow> pystr \<Rightarrow> bool" where
  "counter_ok w url = (case counter w url of None \<Rightarrow> False | Some n \<Rightarrow> n < 2 ^ 63 - 1)"

subsection \<open>A fresh world and simple wrapped functions\<close>

definition fresh_world :: world where
  "fresh_world = \<lparr>store = Map.empty, clock = 0, trace = []\<rparr>"

text \<open>A wrapped function that takes \<open>d\<close> seconds and returns \<open>s\<close>, and one that raises.\<close>

definition returns :: "nat \<Rightarrow> pystr \<Rightarrow> fetcher" where
  "returns d s = (\<lambda>url. (d, Inr s))"

definition raises :: "nat \<Rightarrow> exn \<Rightarrow> fetcher" where
  "raises d e = (\<lambda>url. (d, Inl e))"

text \<open>A web that answers every request with the same status code and body.\<close>

definition responds :: "nat \<Rightarrow> nat \<Rightarrow> pystr \<Rightarrow> http" where
  "responds d code body = (\<lambda>url. (d, Inr \<lparr>status_code = code, resp_text = body\<rparr>))"

section \<open>The codecs\<close>

subsection \<open>UTF-8: decoding undoes encoding\<close>

lemma split3: "(c::nat) div 4096 * 4096 + c div 64 mod 64 * 64 + c mod 64 = c"
proof -
  have q: "c div 4096 = c div 64 div 64" by (simp add: div_mult2_eq [symmetric])
  have "c div 64 div 64 * 4096 + c div 64 mod 64 * 64 = (c div 64 div 64 * 64 + c div 64 mod 64) * 64"
    by (simp only: add_mult_distrib mult.assoc)
  also have "\<dots> = c div 64 * 64" by (simp only: div_mult_mod_eq)
  finally show ?thesis by (simp add: q)
qed

lemma split4: "(c::nat) div 262144 * 262144 + c div 4096 mod 64 * 4096 + c div 64 mod 64 * 64 + c mod 64 = c"
proof -
  have q: "c div 262144 = c div 4096 div 64" by (simp add: div_mult2_eq [symmetric])
  have "c div 4096 div 64 * 262144 + c div 4096 mod 64 * 4096
        = (c div 4096 div 64 * 64 + c div 4096 mod 64) * 4096"
    by (simp only: add_mult_distrib mult.assoc)
  also have "\<dots> = c div 4096 * 4096" by (simp only: div_mult_mod_eq)
  finally have "c div 262144 * 262144 + c div 4096 mod 64 * 4096 = c div 4096 * 4096"
    by (simp add: q)
  then show ?thesis using split3 [of c] by simp
qed

lemma b3: "(c::nat) < 0x10000 \<Longrightarrow> c div 4096 < 16" "c div 64 mod 64 < 64" "c mod 64 < 64"
  by (simp_all add: less_mult_imp_div_less)

lemma b4: "(c::nat) < 0x110000 \<Longrightarrow> c div 262144 < 5"
  by (simp add: less_mult_imp_div_less)

lemma b2: "(c::nat) < 0x800 \<Longrightarrow> c div 64 < 32" "128 \<le> c \<Longrightarrow> 2 \<le> c div 64"
  by (simp_all add: less_mult_imp_div_less le_div_geq)

lemma unat_byte: "n < 256 \<Longrightarrow> unat (of_nat n :: 8 word) = n"
  by (simp add: unat_of_nat)

lemma decode_cp2:
  assumes "2 \<le> a" "a < 32" "d < 64"
  shows "decode_cp (of_nat (0xC0 + a) # of_nat (0x80 + d) # rest) = Some (a * 64 + d, rest)"
proof -
  have "unat (of_nat (0xC0 + a) :: 8 word) = 0xC0 + a" "unat (of_nat (0x80 + d) :: 8 word) = 0x80 + d"
    using assms by (simp_all add: unat_byte del: of_nat_add of_nat_numeral)
  then show ?thesis using assms
    by (simp add: Let_def is_cont_def del: of_nat_add of_nat_numeral)
qed

lemma decode_cp3:
  assumes "a < 16" "b < 64" "d < 64" "0x800 \<le> a * 4096 + b * 64 + d"
    "\<not> is_surrogate (a * 4096 + b * 64 + d)"
  shows "decode_cp (of_nat (0xE0 + a) # of_nat (0x80 + b) # of_nat (0x80 + d) # rest)
         = Some (a * 4096 + b * 64 + d, rest)"
proof -
  have "unat (of_nat (0xE0 + a) :: 8 word) = 0xE0 + a" "unat (of_nat (0x80 + b) :: 8 word) = 0x80 + b"
    "unat (of_nat (0x80 + d) :: 8 word) = 0x80 + d"
    using assms by (simp_all add: unat_byte del: of_nat_add of_nat_numeral)
  then show ?thesis using assms
    by (simp add: Let_def is_cont_def del: of_nat_add of_nat_numeral)
qed

lemma decode_cp4:
  assumes "a < 5" "b < 64" "e < 64" "d < 64" "0x10000 \<le> a * 262144 + b * 4096 + e * 64 + d"
    "a * 262144 + b * 4096 + e * 64 + d < 0x110000"
  shows "decode_cp (of_nat (0xF0 + a) # of_nat (0x80 + b) # of_nat (0x80 + e) # of_nat (0x80 + d) # rest)
         = Some (a * 262144 + b * 4096 + e * 64 + d, rest)"
proof -
  have "unat (of_nat (0xF0 + a) :: 8 word) = 0xF0 + a" "unat (of_nat (0x80 + b) :: 8 word) = 0x80 + b"
    "unat (of_nat (0x80 + e) :: 8 word) = 0x80 + e" "unat (of_nat (0x80 + d) :: 8 word) = 0x80 + d"
    using assms by (simp_all add: unat_byte del: of_nat_add of_nat_numeral)
  then show ?thesis using assms
    by (simp add: Let_def is_cont_def del: of_nat_add of_nat_numeral)
qed

lemma decode_encode_cp:
  assumes "encode_cp c = Some bs"
  shows "decode_cp (bs @ rest) = Some (c, rest)"
proof -
  consider "c < 0x80" | "0x80 \<le> c" "c < 0x800" | "0x800 \<le> c" "c < 0x10000" "\<not> is_surrogate c"
    | "0x10000 \<le> c" "c < 0x110000"
    using assms by (auto simp: encode_cp_def split: if_splits)
  then show ?thesis
  proof cases
    case 1
    then show ?thesis using assms by (auto simp: encode_cp_def unat_byte)
  next
    case 2
    then have bs: "bs = [of_nat (0xC0 + c div 64), of_nat (0x80 + c mod 64)]"
      using assms by (simp add: encode_cp_def del: of_nat_add of_nat_numeral)
    have "2 \<le> c div 64" "c div 64 < 32" "c mod 64 < 64" using 2 by (simp_all add: b2)
    from decode_cp2 [OF this, of rest] show ?thesis
      by (simp add: bs del: of_nat_add of_nat_numeral decode_cp.simps)
  next
    case 3
    then have bs: "bs = [of_nat (0xE0 + c div 4096), of_nat (0x80 + c div 64 mod 64),
                         of_nat (0x80 + c mod 64)]"
      using assms by (simp add: encode_cp_def del: of_nat_add of_nat_numeral)
    have c: "c div 4096 * 4096 + c div 64 mod 64 * 64 + c mod 64 = c" by (rule split3)
    have "c div 4096 < 16" "c div 64 mod 64 < 64" "c mod 64 < 64" using 3 by (simp_all add: b3)
    from decode_cp3 [OF this, of rest] 3 show ?thesis
      by (simp add: bs c del: of_nat_add of_nat_numeral decode_cp.simps)
  next
    case 4
    then have bs: "bs = [of_nat (0xF0 + c div 262144), of_nat (0x80 + c div 4096 mod 64),
                         of_nat (0x80 + c div 64 mod 64), of_nat (0x80 + c mod 64)]"
      using assms by (simp add: encode_cp_def del: of_nat_add of_nat_numeral)
    have c: "c div 262144 * 262144 + c div 4096 mod 64 * 4096 + c div 64 mod 64 * 64 + c mod 64 = c"
      by (rule split4)
    have "c div 262144 < 5" "c div 4096 mod 64 < 64" "c div 64 mod 64 < 64" "c mod 64 < 64"
      using 4 by (simp_all add: b4)
    from decode_cp4 [OF this, of rest] 4 show ?thesis
      by (simp add: bs c del: of_nat_add of_nat_numeral decode_cp.simps)
  qed
qed

lemma encode_cp_nonempty: "encode_cp c = Some bs \<Longrightarrow> bs \<noteq> []"
  by (auto simp: encode_cp_def split: if_splits)

lemma encode_cp_None_iff: "encode_cp c = None \<longleftrightarrow> \<not> (c < 0x110000 \<and> \<not> is_surrogate c)"
  by (auto simp: encode_cp_def is_surrogate_def)

lemma utf8_decode_step:
  "decode_cp bs = Some (c, r) \<Longrightarrow>
   utf8_decode bs = (case utf8_decode r of None \<Rightarrow> None | Some cs \<Rightarrow> Some (c # cs))"
  by (cases bs) (simp_all del: decode_cp.simps(2))

lemma utf8_roundtrip: "utf8_encode s = Some bs \<Longrightarrow> utf8_decode bs = Some s"
proof (induction s arbitrary: bs)
  case Nil
  then show ?case by simp
next
  case (Cons c cs)
  then obtain b r where b: "encode_cp c = Some b" and r: "utf8_encode cs = Some r"
    and bs: "bs = b @ r"
    by (auto split: option.splits)
  from Cons.IH [OF r] decode_encode_cp [OF b, of r] show ?case
    by (simp add: bs utf8_decode_step)
qed

lemma utf8_encode_None_iff: "utf8_encode s = None \<longleftrightarrow> \<not> unicode_text s"
proof (induction s)
  case Nil
  show ?case by (simp add: unicode_text_def)
next
  case (Cons c cs)
  then show ?case
    using encode_cp_None_iff [of c]
    by (cases "encode_cp c"; cases "utf8_encode cs") (auto simp: unicode_text_def)
qed

lemma utf8_encode_empty_iff: "utf8_encode s = Some [] \<longleftrightarrow> s = []"
  by (cases s) (auto split: option.splits dest: encode_cp_nonempty)

lemma utf8_encode_inj:
  "utf8_encode s = Some bs \<Longrightarrow> utf8_encode s' = Some bs \<Longrightarrow> s = s'"
  by (metis utf8_roundtrip option.inject)

subsection \<open>Decimal: reading undoes writing\<close>

lemma unat_digit_byte: "d < 10 \<Longrightarrow> unat (digit_byte d) = 0x30 + d"
  by (simp add: digit_byte_def unat_byte del: of_nat_add of_nat_numeral)

lemma digits_val_append:
  "digits_val (xs @ ys) acc = (case digits_val xs acc of None \<Rightarrow> None | Some a \<Rightarrow> digits_val ys a)"
  by (induction xs arbitrary: acc) auto

lemma digits_shape:
  "0 < n \<Longrightarrow> \<exists>d ds. digits n = d # ds \<and> 1 \<le> d \<and> d \<le> 9 \<and> digits_val (map digit_byte ds) d = Some n"
proof (induction n rule: digits.induct)
  case (1 n)
  show ?case
  proof (cases "n < 10")
    case True
    with "1.prems" show ?thesis by (simp add: digits.simps [of n])
  next
    case False
    then have "0 < n div 10" by simp
    with "1.IH" False obtain d ds where d: "digits (n div 10) = d # ds" "1 \<le> d" "d \<le> 9"
      "digits_val (map digit_byte ds) d = Some (n div 10)" by blast
    have "n mod 10 < 10" by simp
    then have "digits_val (map digit_byte (ds @ [n mod 10])) d = Some n"
      using d(4) by (simp add: digits_val_append is_digit_def unat_digit_byte)
    with d False show ?thesis by (simp add: digits.simps [of n])
  qed
qed

lemma parse_positive_digits: "0 < n \<Longrightarrow> parse_positive (map digit_byte (digits n)) = Some n"
  using digits_shape [of n] by (auto simp: parse_positive_def unat_digit_byte)

lemma digits_head_byte:
  assumes "0 < n"
  shows "\<exists>b bs. map digit_byte (digits n) = b # bs \<and> 0x31 \<le> unat b \<and> unat b \<le> 0x39"
  using digits_shape [OF assms] by (auto simp: unat_digit_byte)

lemma string2ll_ll2string:
  assumes "- (2 ^ 63) \<le> i" "i < 2 ^ 63"
  shows "string2ll (ll2string i) = Some i"
proof -
  consider "i = 0" | "0 < i" | "i < 0" by linarith
  then show ?thesis
  proof cases
    case 1
    then show ?thesis by (simp add: ll2string_def string2ll_def digits.simps digit_byte_def)
  next
    case 2
    then have n: "0 < nat i" by simp
    from digits_head_byte [OF n] obtain b bs where
      b: "map digit_byte (digits (nat i)) = b # bs" "0x31 \<le> unat b" "unat b \<le> 0x39" by auto
    then have "b \<noteq> 0x30" "b \<noteq> 0x2D" by auto
    moreover have "nat i < 2 ^ 63" using assms 2 by (simp add: nat_less_iff)
    ultimately show ?thesis using 2 b(1) parse_positive_digits [OF n]
      by (simp add: ll2string_def string2ll_def)
  next
    case 3
    then have n: "0 < nat (- i)" by simp
    have "nat (- i) \<le> 2 ^ 63" using assms 3 by (simp add: nat_le_iff)
    then show ?thesis using 3 parse_positive_digits [OF n]
      by (simp add: ll2string_def string2ll_def)
  qed
qed

section \<open>One call, step by step\<close>

subsection \<open>The keys\<close>

lemma count_cache_distinct [simp]: "count_key u \<noteq> cache_key v" "cache_key v \<noteq> count_key u"
  by (simp_all add: count_key_def cache_key_def str_lit_def)

lemma count_key_inj [simp]: "count_key u = count_key v \<longleftrightarrow> u = v"
  by (simp add: count_key_def)

lemma cache_key_inj [simp]: "cache_key u = cache_key v \<longleftrightarrow> u = v"
  by (simp add: cache_key_def)

lemma unicode_text_keys [simp]:
  "unicode_text (count_key u) = unicode_text u" "unicode_text (cache_key u) = unicode_text u"
  by (simp_all add: count_key_def cache_key_def str_lit_def unicode_text_def is_surrogate_def)

lemma utf8_encode_text: "unicode_text s \<Longrightarrow> \<exists>bs. utf8_encode s = Some bs"
  using utf8_encode_None_iff [of s] by auto

lemma entry_data_update: "expire_at (e :: entry) = t \<Longrightarrow> e\<lparr>data := v\<rparr> = \<lparr>data = v, expire_at = t\<rparr>"
  by (cases e) simp

lemma redis_incr_ok:
  assumes "unicode_text url" "counter w url = Some n" "n < 2 ^ 63 - 1"
  shows "redis_incr (count_key url) w =
           (Inr (n + 1),
            w\<lparr>store := (store w)(count_key url \<mapsto> \<lparr>data = ll2string (n + 1), expire_at = None\<rparr>),
              trace := trace w @ [Incr (count_key url)]\<rparr>)"
proof -
  obtain bs where "utf8_encode (count_key url) = Some bs"
    using assms(1) utf8_encode_text [of "count_key url"] by auto
  then show ?thesis using assms(2,3)
    by (auto simp: redis_incr_def counter_def Let_def entry_data_update split: option.splits if_splits)
qed

lemma redis_get_ok:
  assumes "unicode_text url"
  shows "redis_get (cache_key url) w =
           (Inr (cached w url), w\<lparr>trace := trace w @ [Get (cache_key url)]\<rparr>)"
proof -
  obtain bs where "utf8_encode (cache_key url) = Some bs"
    using assms utf8_encode_text [of "cache_key url"] by auto
  then show ?thesis by (simp add: redis_get_def cached_def)
qed

lemma redis_setex_ok:
  assumes "unicode_text url" "utf8_encode val = Some bs" "0 < time"
  shows "redis_setex (cache_key url) time val w =
           (Inr (),
            w\<lparr>store := (store w)(cache_key url \<mapsto>
                   \<lparr>data = bs, expire_at = Some (clock w + nat time)\<rparr>),
              trace := trace w @ [Setex (cache_key url) time bs]\<rparr>)"
proof -
  obtain ks where "utf8_encode (cache_key url) = Some ks"
    using assms(1) utf8_encode_text [of "cache_key url"] by auto
  then show ?thesis using assms(2,3) by (simp add: redis_setex_def Let_def)
qed

lemma cached_after_incr:
  "cached (w\<lparr>store := (store w)(count_key url \<mapsto> e), trace := tr\<rparr>) url' = cached w url'"
  by (simp add: cached_def lookup_def split: option.splits)

lemma wrapper_hit:
  assumes "unicode_text url" "counter w url = Some n" "n < 2 ^ 63 - 1"
    and "cached w url = Some bs" "bs \<noteq> []"
  shows "wrapper expiration func url w =
           ((case utf8_decode bs of None \<Rightarrow> Inl UnicodeDecodeError | Some s \<Rightarrow> Inr s),
            w\<lparr>store := (store w)(count_key url \<mapsto> \<lparr>data = ll2string (n + 1), expire_at = None\<rparr>),
              trace := trace w @ [Incr (count_key url), Get (cache_key url)]\<rparr>)"
  using assms(4,5)
  by (simp add: wrapper_def redis_incr_ok [OF assms(1-3)] redis_get_ok [OF assms(1)]
      cached_after_incr truthy_def split: option.splits)

lemma wrapper_miss_raise:
  assumes "unicode_text url" "counter w url = Some n" "n < 2 ^ 63 - 1"
    and "\<not> cache_hit w url" "func url = (d, Inl e)"
  shows "wrapper expiration func url w =
           (Inl e,
            w\<lparr>store := (store w)(count_key url \<mapsto> \<lparr>data = ll2string (n + 1), expire_at = None\<rparr>),
              clock := clock w + d,
              trace := trace w @ [Incr (count_key url), Get (cache_key url), Fetch url]\<rparr>)"
  using assms(4,5)
  by (simp add: wrapper_def redis_incr_ok [OF assms(1-3)] redis_get_ok [OF assms(1)]
      cached_after_incr cache_hit_def invoke_def)

lemma wrapper_miss_store:
  assumes "unicode_text url" "counter w url = Some n" "n < 2 ^ 63 - 1"
    and "\<not> cache_hit w url" "func url = (d, Inr result)"
    and "utf8_encode result = Some bs" "0 < expiration"
  shows "wrapper expiration func url w =
           (Inr result,
            w\<lparr>store := (store w)
                  (count_key url \<mapsto> \<lparr>data = ll2string (n + 1), expire_at = None\<rparr>,
                   cache_key url \<mapsto> \<lparr>data = bs, expire_at = Some (clock w + d + nat expiration)\<rparr>),
              clock := clock w + d,
              trace := trace w @ [Incr (count_key url), Get (cache_key url), Fetch url,
                                  Setex (cache_key url) expiration bs]\<rparr>)"
  using assms(4,5)
  by (simp add: wrapper_def redis_incr_ok [OF assms(1-3)] redis_get_ok [OF assms(1)]
      redis_setex_ok [OF assms(1,6,7)] cached_after_incr cache_hit_def invoke_def)

subsection \<open>The six ways through the wrapper\<close>

lemma wrapper_paths:
  obtains
    (raise_incr) e w1 where
      "redis_incr (count_key url) w = (Inl e, w1)"
      "wrapper expiration func url w = (Inl e, w1)"
  | (raise_get) n w1 e w2 where
      "redis_incr (count_key url) w = (Inr n, w1)"
      "redis_get (cache_key url) w1 = (Inl e, w2)"
      "wrapper expiration func url w = (Inl e, w2)"
  | (hit) n w1 c w2 where
      "redis_incr (count_key url) w = (Inr n, w1)"
      "redis_get (cache_key url) w1 = (Inr c, w2)" "truthy c"
      "wrapper expiration func url w =
         ((case utf8_decode (the c) of None \<Rightarrow> Inl UnicodeDecodeError | Some s \<Rightarrow> Inr s), w2)"
  | (raise_func) n w1 c w2 e w3 where
      "redis_incr (count_key url) w = (Inr n, w1)"
      "redis_get (cache_key url) w1 = (Inr c, w2)" "\<not> truthy c"
      "invoke func url w2 = (Inl e, w3)"
      "wrapper expiration func url w = (Inl e, w3)"
  | (raise_setex) n w1 c w2 result w3 e w4 where
      "redis_incr (count_key url) w = (Inr n, w1)"
      "redis_get (cache_key url) w1 = (Inr c, w2)" "\<not> truthy c"
      "invoke func url w2 = (Inr result, w3)"
      "redis_setex (cache_key url) expiration result w3 = (Inl e, w4)"
      "wrapper expiration func url w = (Inl e, w4)"
  | (stored) n w1 c w2 result w3 w4 where
      "redis_incr (count_key url) w = (Inr n, w1)"
      "redis_get (cache_key url) w1 = (Inr c, w2)" "\<not> truthy c"
      "invoke func url w2 = (Inr result, w3)"
      "redis_setex (cache_key url) expiration result w3 = (Inr (), w4)"
      "wrapper expiration func url w = (Inr result, w4)"
proof -
  obtain r1 w1 where i: "redis_incr (count_key url) w = (r1, w1)" by fastforce
  show thesis
  proof (cases r1)
    case (Inl e)
    with i raise_incr show thesis by (simp add: wrapper_def)
  next
    case n: (Inr n)
    obtain r2 w2 where g: "redis_get (cache_key url) w1 = (r2, w2)" by fastforce
    show thesis
    proof (cases r2)
      case (Inl e)
      with i n g raise_get show thesis by (simp add: wrapper_def)
    next
      case c: (Inr c)
      show thesis
      proof (cases "truthy c")
        case True
        with i n g c hit [of n w1 c w2] show thesis
          by (simp add: wrapper_def split: option.splits)
      next
        case miss: False
        obtain r3 w3 where f: "invoke func url w2 = (r3, w3)" by fastforce
        show thesis
        proof (cases r3)
          case (Inl e)
          with i n g c miss f raise_func show thesis by (simp add: wrapper_def)
        next
          case res: (Inr result)
          obtain r4 w4 where s: "redis_setex (cache_key url) expiration result w3 = (r4, w4)"
            by fastforce
          show thesis
          proof (cases r4)
            case (Inl e)
            with i n g c miss f res s raise_setex show thesis by (simp add: wrapper_def)
          next
            case (Inr u)
            with i n g c miss f res s stored show thesis by (simp add: wrapper_def)
          qed
        qed
      qed
    qed
  qed
qed

subsection \<open>What each command leaves alone\<close>

lemma incr_clock: "redis_incr name w = (r, w1) \<Longrightarrow> clock w1 = clock w"
  by (auto simp: redis_incr_def Let_def split: option.splits if_splits)

lemma incr_store: "redis_incr name w = (r, w1) \<Longrightarrow> k \<noteq> name \<Longrightarrow> store w1 k = store w k"
  by (auto simp: redis_incr_def Let_def split: option.splits if_splits)

lemma incr_trace:
  "redis_incr name w = (r, w1) \<Longrightarrow>
   trace w1 = trace w @ (if unicode_text name then [Incr name] else [])"
  using utf8_encode_None_iff [of name]
  by (auto simp: redis_incr_def Let_def split: option.splits if_splits)

lemma get_world:
  "redis_get name w = (r, w2) \<Longrightarrow>
   w2 = w\<lparr>trace := trace w @ (if unicode_text name then [Get name] else [])\<rparr>"
  using utf8_encode_None_iff [of name]
  by (auto simp: redis_get_def split: option.splits)

lemma invoke_world:
  "invoke func url w = (r, w3) \<Longrightarrow>
   w3 = w\<lparr>clock := clock w + fst (func url), trace := trace w @ [Fetch url]\<rparr> \<and> r = snd (func url)"
  by (auto simp: invoke_def split: prod.splits)

lemma setex_clock: "redis_setex name t v w = (r, w4) \<Longrightarrow> clock w4 = clock w"
  by (auto simp: redis_setex_def Let_def split: option.splits if_splits)

lemma setex_raise:
  "redis_setex name t v w = (Inl e, w4) \<Longrightarrow>
   store w4 = store w \<and>
   (trace w4 = trace w \<or> (\<exists>bs. utf8_encode v = Some bs \<and> trace w4 = trace w @ [Setex name t bs]))"
  by (auto simp: redis_setex_def Let_def split: option.splits if_splits)

lemma setex_done:
  "redis_setex name t v w = (Inr u, w4) \<Longrightarrow>
   \<exists>bs. utf8_encode v = Some bs \<and> 0 < t \<and>
        w4 = w\<lparr>store := (store w)(name \<mapsto> \<lparr>data = bs, expire_at = Some (clock w + nat t)\<rparr>),
               trace := trace w @ [Setex name t bs]\<rparr>"
  by (auto simp: redis_setex_def Let_def split: option.splits if_splits)

subsection \<open>What one call leaves alone\<close>

lemma wrapper_frame:
  assumes "k \<noteq> count_key url" "k \<noteq> cache_key url"
  shows "store (snd (wrapper expiration func url w)) k = store w k"
proof (cases rule: wrapper_paths [of url w expiration func])
  case (raise_incr e w1)
  then show ?thesis using assms by (simp add: incr_store)
next
  case (raise_get n w1 e w2)
  then show ?thesis using assms by (auto dest!: get_world simp: incr_store)
next
  case (hit n w1 c w2)
  then show ?thesis using assms by (auto dest!: get_world simp: incr_store)
next
  case (raise_func n w1 c w2 e w3)
  then show ?thesis using assms by (auto dest!: get_world invoke_world simp: incr_store)
next
  case (raise_setex n w1 c w2 result w3 e w4)
  then show ?thesis using assms
    by (auto dest!: get_world invoke_world setex_raise simp: incr_store)
next
  case (stored n w1 c w2 result w3 w4)
  then show ?thesis using assms
    by (auto dest!: get_world invoke_world setex_done simp: incr_store)
qed

lemma wrapper_clock: "clock w \<le> clock (snd (wrapper expiration func url w))"
proof (cases rule: wrapper_paths [of url w expiration func])
  case (raise_incr e w1)
  then show ?thesis by (simp add: incr_clock)
next
  case (raise_get n w1 e w2)
  then show ?thesis by (auto dest!: get_world simp: incr_clock)
next
  case (hit n w1 c w2)
  then show ?thesis by (auto dest!: get_world simp: incr_clock)
next
  case (raise_func n w1 c w2 e w3)
  then show ?thesis by (auto dest!: get_world invoke_world simp: incr_clock)
next
  case (raise_setex n w1 c w2 result w3 e w4)
  then show ?thesis
    by (auto dest!: get_world invoke_world dest: setex_clock simp: incr_clock)
next
  case (stored n w1 c w2 result w3 w4)
  then show ?thesis
    by (auto dest!: get_world invoke_world dest: setex_clock simp: incr_clock)
qed

lemma wrapper_count_store:
  "store (snd (wrapper expiration func url w)) (count_key u)
   = store (snd (redis_incr (count_key url) w)) (count_key u)"
proof (cases rule: wrapper_paths [of url w expiration func])
  case (raise_incr e w1)
  then show ?thesis by simp
next
  case (raise_get n w1 e w2)
  then show ?thesis by (auto dest!: get_world)
next
  case (hit n w1 c w2)
  then show ?thesis by (auto dest!: get_world)
next
  case (raise_func n w1 c w2 e w3)
  then show ?thesis by (auto dest!: get_world invoke_world)
next
  case (raise_setex n w1 c w2 result w3 e w4)
  then show ?thesis by (auto dest!: get_world invoke_world setex_raise)
next
  case (stored n w1 c w2 result w3 w4)
  then show ?thesis by (auto dest!: get_world invoke_world setex_done)
qed

lemma string2ll_range: "string2ll bs = Some i \<Longrightarrow> - (2 ^ 63) \<le> i \<and> i < 2 ^ 63"
  by (auto simp: string2ll_def split: list.splits if_splits option.splits)

lemma counter_range: "counter w url = Some n \<Longrightarrow> - (2 ^ 63) \<le> n \<and> n < 2 ^ 63"
  by (auto simp: counter_def split: option.splits if_splits dest: string2ll_range)

lemma counter_of_store:
  assumes "store w (count_key url) = Some \<lparr>data = ll2string m, expire_at = None\<rparr>"
    and "- (2 ^ 63) \<le> m" "m < 2 ^ 63"
  shows "counter w url = Some m"
  using assms by (simp add: counter_def lookup_def live_def string2ll_ll2string)

lemma counter_stable:
  assumes "store w' (count_key url) = store w (count_key url)" "clock w \<le> clock w'"
    and "counter w url = Some m"
  shows "counter w' url = Some m"
  using assms
  by (auto simp: counter_def lookup_def live_def split: option.splits if_splits)


lemma call_counts:
  assumes "unicode_text url" "counter w url = Some n" "n < 2 ^ 63 - 1"
  shows "counter (snd (wrapper expiration func url w)) url = Some (n + 1)"
proof -
  have "store (snd (wrapper expiration func url w)) (count_key url)
        = Some \<lparr>data = ll2string (n + 1), expire_at = None\<rparr>"
    by (simp add: wrapper_count_store redis_incr_ok [OF assms])
  moreover have "- (2 ^ 63) \<le> n + 1" "n + 1 < 2 ^ 63"
    using counter_range [OF assms(2)] assms(3) by auto
  ultimately show ?thesis by (rule counter_of_store)
qed

lemma call_other_url:
  assumes "u \<noteq> url" "counter w url = Some m"
  shows "counter (snd (wrapper expiration func u w)) url = Some m"
proof (rule counter_stable [OF _ wrapper_clock assms(2)])
  show "store (snd (wrapper expiration func u w)) (count_key url) = store w (count_key url)"
    using assms(1) by (simp add: wrapper_frame)
qed

lemma sleep_counter: "counter w url = Some m \<Longrightarrow> counter (sleep d w) url = Some m"
  by (rule counter_stable) (simp_all add: sleep_def)

lemma run_counts:
  assumes "unicode_text url"
  shows "counter w url = Some m \<Longrightarrow> m + int (invocations ss url) < 2 ^ 63 \<Longrightarrow>
         counter (run ss w) url = Some (m + int (invocations ss url))"
proof (induction ss arbitrary: w m)
  case Nil
  then show ?case by simp
next
  case (Cons s ss)
  show ?case
  proof (cases s)
    case (Invoke expiration func u)
    show ?thesis
    proof (cases "u = url")
      case True
      have "m < 2 ^ 63 - 1" using Cons.prems(2) Invoke True by simp
      from call_counts [OF assms Cons.prems(1) this]
      have "counter (snd (wrapper expiration func url w)) url = Some (m + 1)" .
      from Cons.IH [OF this] Cons.prems(2) show ?thesis
        using Invoke True by (simp add: add.assoc)
    next
      case False
      from call_other_url [OF False Cons.prems(1)] Cons.IH Cons.prems(2) show ?thesis
        using Invoke False by simp
    qed
  next
    case (Sleep d)
    from sleep_counter [OF Cons.prems(1)] Cons.IH Cons.prems(2) show ?thesis
      using Sleep by simp
  qed
qed

lemma counter_okD: "counter_ok w url \<Longrightarrow> \<exists>n. counter w url = Some n \<and> n < 2 ^ 63 - 1"
  by (auto simp: counter_ok_def split: option.splits)

lemma counter_okI: "counter w url = Some n \<Longrightarrow> n < 2 ^ 63 - 1 \<Longrightarrow> counter_ok w url"
  by (simp add: counter_ok_def)

lemma redis_setex_unencodable:
  assumes "\<not> unicode_text val"
  shows "redis_setex name time val w = (Inl UnicodeEncodeError, w)"
  using assms utf8_encode_None_iff [of val]
  by (simp add: redis_setex_def split: option.splits)

lemma redis_setex_bad_time:
  assumes "unicode_text url" "utf8_encode val = Some bs" "time \<le> 0"
  shows "redis_setex (cache_key url) time val w =
           (Inl ResponseError, w\<lparr>trace := trace w @ [Setex (cache_key url) time bs]\<rparr>)"
proof -
  obtain ks where "utf8_encode (cache_key url) = Some ks"
    using assms(1) utf8_encode_text [of "cache_key url"] by auto
  then show ?thesis using assms(2,3) by (simp add: redis_setex_def Let_def)
qed

lemma wrapper_miss_unencodable:
  assumes "unicode_text url" "counter w url = Some n" "n < 2 ^ 63 - 1"
    and "\<not> cache_hit w url" "func url = (d, Inr result)" "\<not> unicode_text result"
  shows "wrapper expiration func url w =
           (Inl UnicodeEncodeError,
            w\<lparr>store := (store w)(count_key url \<mapsto> \<lparr>data = ll2string (n + 1), expire_at = None\<rparr>),
              clock := clock w + d,
              trace := trace w @ [Incr (count_key url), Get (cache_key url), Fetch url]\<rparr>)"
  using assms(4,5)
  by (simp add: wrapper_def redis_incr_ok [OF assms(1-3)] redis_get_ok [OF assms(1)]
      redis_setex_unencodable [OF assms(6)] cached_after_incr cache_hit_def invoke_def)

lemma wrapper_miss_bad_time:
  assumes "unicode_text url" "counter w url = Some n" "n < 2 ^ 63 - 1"
    and "\<not> cache_hit w url" "func url = (d, Inr result)"
    and "utf8_encode result = Some bs" "expiration \<le> 0"
  shows "wrapper expiration func url w =
           (Inl ResponseError,
            w\<lparr>store := (store w)(count_key url \<mapsto> \<lparr>data = ll2string (n + 1), expire_at = None\<rparr>),
              clock := clock w + d,
              trace := trace w @ [Incr (count_key url), Get (cache_key url), Fetch url,
                                  Setex (cache_key url) expiration bs]\<rparr>)"
  using assms(4,5)
  by (simp add: wrapper_def redis_incr_ok [OF assms(1-3)] redis_get_ok [OF assms(1)]
      redis_setex_bad_time [OF assms(1,6,7)] cached_after_incr cache_hit_def invoke_def)

lemma effects_since_append [simp]:
  "effects_since w (w\<lparr>store := s, trace := trace w @ new\<rparr>) = new"
  "effects_since w (w\<lparr>store := s, clock := c, trace := trace w @ new\<rparr>) = new"
  by (simp_all add: effects_since_def)

lemma cache_hit_iff: "cache_hit w url \<longleftrightarrow> (\<exists>bs. cached w url = Some bs \<and> bs \<noteq> [])"
  by (auto simp: cache_hit_def truthy_def split: option.splits)

subsection \<open>A call whose increment succeeds\<close>

lemma call_hit:
  assumes "unicode_text url" "counter_ok w url" "cache_hit w url"
  shows "effects_since w (snd (wrapper expiration func url w))
           = [Incr (count_key url), Get (cache_key url)]"
    and "store (snd (wrapper expiration func url w)) (cache_key url) = store w (cache_key url)"
    and "clock (snd (wrapper expiration func url w)) = clock w"
proof -
  from counter_okD [OF assms(2)] obtain n where n: "counter w url = Some n" "n < 2 ^ 63 - 1"
    by blast
  from assms(3) obtain bs where bs: "cached w url = Some bs" "bs \<noteq> []"
    by (auto simp: cache_hit_iff)
  note h = wrapper_hit [OF assms(1) n bs]
  show "effects_since w (snd (wrapper expiration func url w))
           = [Incr (count_key url), Get (cache_key url)]"
    by (simp add: h)
  show "store (snd (wrapper expiration func url w)) (cache_key url) = store w (cache_key url)"
    by (simp add: h)
  show "clock (snd (wrapper expiration func url w)) = clock w"
    by (simp add: h)
qed

lemma call_miss:
  assumes "unicode_text url" "counter_ok w url" "\<not> cache_hit w url"
  shows "(effects_since w (snd (wrapper expiration func url w))
            = [Incr (count_key url), Get (cache_key url), Fetch url]
          \<and> store (snd (wrapper expiration func url w)) (cache_key url) = store w (cache_key url))
       \<or> (\<exists>bs. effects_since w (snd (wrapper expiration func url w))
            = [Incr (count_key url), Get (cache_key url), Fetch url,
               Setex (cache_key url) expiration bs])"
    and "clock (snd (wrapper expiration func url w)) = clock w + fst (func url)"
proof -
  from counter_okD [OF assms(2)] obtain n where n: "counter w url = Some n" "n < 2 ^ 63 - 1"
    by blast
  obtain d r where f: "func url = (d, r)" by fastforce
  have "((effects_since w (snd (wrapper expiration func url w))
            = [Incr (count_key url), Get (cache_key url), Fetch url]
          \<and> store (snd (wrapper expiration func url w)) (cache_key url) = store w (cache_key url))
       \<or> (\<exists>bs. effects_since w (snd (wrapper expiration func url w))
            = [Incr (count_key url), Get (cache_key url), Fetch url,
               Setex (cache_key url) expiration bs]))
       \<and> clock (snd (wrapper expiration func url w)) = clock w + fst (func url)"
  proof (cases r)
    case (Inl e)
    with f have "func url = (d, Inl e)" by simp
    from wrapper_miss_raise [where func = func, OF assms(1) n assms(3) this] f show ?thesis by simp
  next
    case (Inr result)
    with f have fr: "func url = (d, Inr result)" by simp
    show ?thesis
    proof (cases "utf8_encode result")
      case None
      then have "\<not> unicode_text result" by (simp add: utf8_encode_None_iff)
      from wrapper_miss_unencodable [where func = func, OF assms(1) n assms(3) fr this] f show ?thesis by simp
    next
      case (Some bs)
      show ?thesis
      proof (cases "0 < expiration")
        case True
        from wrapper_miss_store [where func = func, OF assms(1) n assms(3) fr Some True] f show ?thesis by simp
      next
        case False
        then have "expiration \<le> 0" by simp
        from wrapper_miss_bad_time [where func = func, OF assms(1) n assms(3) fr Some this] f show ?thesis by simp
      qed
    qed
  qed
  then show "(effects_since w (snd (wrapper expiration func url w))
            = [Incr (count_key url), Get (cache_key url), Fetch url]
          \<and> store (snd (wrapper expiration func url w)) (cache_key url) = store w (cache_key url))
       \<or> (\<exists>bs. effects_since w (snd (wrapper expiration func url w))
            = [Incr (count_key url), Get (cache_key url), Fetch url,
               Setex (cache_key url) expiration bs])"
    and "clock (snd (wrapper expiration func url w)) = clock w + fst (func url)"
    by blast+
qed

lemma miss_stays_miss:
  assumes "\<not> cache_hit w url" "store w' (cache_key url) = store w (cache_key url)"
    and "clock w \<le> clock w'"
  shows "\<not> cache_hit w' url"
  using assms
  by (auto simp: cache_hit_iff cached_def lookup_def live_def split: option.splits if_splits)

lemma stored_then_cached:
  assumes "store w' (cache_key url) = Some \<lparr>data = bs, expire_at = Some t\<rparr>" "clock w' \<le> t"
  shows "cached w' url = Some bs"
  using assms by (simp add: cached_def lookup_def live_def)

subsection \<open>Two calls in a row\<close>

lemma after_miss_store:
  assumes "unicode_text url" "counter w url = Some n" "n < 2 ^ 63 - 1"
    and "\<not> cache_hit w url" "func url = (d, Inr result)"
    and "utf8_encode result = Some bs" "0 < expiration"
  shows "counter (sleep t (snd (wrapper expiration func url w))) url = Some (n + 1)"
    and "store (sleep t (snd (wrapper expiration func url w))) (cache_key url)
           = Some \<lparr>data = bs, expire_at = Some (clock w + d + nat expiration)\<rparr>"
    and "clock (sleep t (snd (wrapper expiration func url w))) = clock w + d + t"
    and "t \<le> nat expiration \<Longrightarrow> cached (sleep t (snd (wrapper expiration func url w))) url = Some bs"
    and "nat expiration < t \<Longrightarrow> cached (sleep t (snd (wrapper expiration func url w))) url = None"
proof -
  let ?w1 = "snd (wrapper expiration func url w)"
  note s = wrapper_miss_store [where func = func, OF assms]
  show "counter (sleep t ?w1) url = Some (n + 1)"
    by (rule sleep_counter [OF call_counts [OF assms(1-3)]])
  show st: "store (sleep t ?w1) (cache_key url)
           = Some \<lparr>data = bs, expire_at = Some (clock w + d + nat expiration)\<rparr>"
    by (simp add: s sleep_def)
  show cl: "clock (sleep t ?w1) = clock w + d + t"
    by (simp add: s sleep_def)
  show "cached (sleep t ?w1) url = Some bs" if "t \<le> nat expiration"
    by (rule stored_then_cached [OF st]) (simp add: cl that)
  show "cached (sleep t ?w1) url = None" if "nat expiration < t"
    using that by (simp add: cached_def lookup_def live_def st cl)
qed

lemma hit_result:
  assumes "unicode_text url" "counter_ok w url" "cached w url = Some bs" "bs \<noteq> []"
  shows "fst (wrapper expiration func url w)
           = (case utf8_decode bs of None \<Rightarrow> Inl UnicodeDecodeError | Some s \<Rightarrow> Inr s)"
proof -
  from counter_okD [OF assms(2)] obtain n where n: "counter w url = Some n" "n < 2 ^ 63 - 1"
    by blast
  show ?thesis by (simp add: wrapper_hit [OF assms(1) n assms(3,4)])
qed

lemma hit_of_encoded:
  assumes "unicode_text url" "counter_ok w url" "cached w url = utf8_encode result"
    "unicode_text result" "result \<noteq> []"
  shows "fst (wrapper expiration func url w) = Inr result" "cache_hit w url"
proof -
  from utf8_encode_text [OF assms(4)] obtain bs where bs: "utf8_encode result = Some bs" by blast
  then have ne: "bs \<noteq> []" using assms(5) utf8_encode_empty_iff [of result] by auto
  have c: "cached w url = Some bs" using assms(3) bs by simp
  show "fst (wrapper expiration func url w) = Inr result"
    by (simp add: hit_result [OF assms(1,2) c ne] utf8_roundtrip [OF bs])
  show "cache_hit w url" using c ne by (auto simp: cache_hit_iff)
qed

subsection \<open>Histories\<close>

lemma incr_refused:
  assumes "counter w url = Some m" "\<not> (unicode_text url \<and> m < 2 ^ 63 - 1)"
  shows "\<exists>e w1. redis_incr (count_key url) w = (Inl e, w1) \<and> store w1 = store w \<and> clock w1 = clock w"
proof (cases "unicode_text url")
  case False
  then have "utf8_encode (count_key url) = None" by (simp add: utf8_encode_None_iff)
  then show ?thesis by (simp add: redis_incr_def)
next
  case True
  then obtain ks where ks: "utf8_encode (count_key url) = Some ks"
    using utf8_encode_text [of "count_key url"] by auto
  from True assms counter_range [OF assms(1)] have m: "m = 2 ^ 63 - 1" by simp
  with assms(1) obtain e where "lookup w (count_key url) = Some e" "string2ll (data e) = Some m"
    by (auto simp: counter_def split: option.splits if_splits)
  with ks m show ?thesis by (simp add: redis_incr_def Let_def)
qed

lemma call_counter_step:
  assumes "counter w url = Some m"
  shows "counter (snd (wrapper expiration func u w)) url = Some m
       \<or> counter (snd (wrapper expiration func u w)) url = Some (m + 1)"
proof (cases "u = url")
  case False
  from call_other_url [OF False assms] show ?thesis by simp
next
  case True
  show ?thesis
  proof (cases "unicode_text url \<and> m < 2 ^ 63 - 1")
    case ok: True
    with call_counts [OF _ assms, of expiration func] True show ?thesis by simp
  next
    case False
    from incr_refused [OF assms False] obtain e w1 where
      i: "redis_incr (count_key url) w = (Inl e, w1)" "store w1 = store w" "clock w1 = clock w"
      by blast
    then have "wrapper expiration func url w = (Inl e, w1)" by (simp add: wrapper_def)
    with i True have "counter (snd (wrapper expiration func u w)) url = Some m"
      by (intro counter_stable [OF _ _ assms]) simp_all
    then show ?thesis ..
  qed
qed

lemma run_counter_mono:
  "counter w url = Some m \<Longrightarrow> \<exists>m'. counter (run ss w) url = Some m' \<and> m \<le> m'"
proof (induction ss arbitrary: w m)
  case Nil
  then show ?case by simp
next
  case (Cons s ss)
  show ?case
  proof (cases s)
    case (Invoke expiration func u)
    from call_counter_step [OF Cons.prems, of expiration func u]
    obtain m1 where m1: "counter (snd (wrapper expiration func u w)) url = Some m1" "m \<le> m1"
      by auto
    from Cons.IH [OF m1(1)] m1(2) Invoke show ?thesis by fastforce
  next
    case (Sleep d)
    from Cons.IH [OF sleep_counter [OF Cons.prems]] Sleep show ?thesis by simp
  qed
qed

text \<open>A key that holds a value without expiry keeps one through any history.\<close>

lemma incr_keeps_persistent:
  assumes "store w k = Some e" "expire_at e = None"
  shows "\<exists>e'. store (snd (redis_incr name w)) k = Some e' \<and> expire_at e' = None"
proof (cases "k = name")
  case False
  then show ?thesis using assms incr_store [of name w _ _ k] by (cases "redis_incr name w") auto
next
  case True
  with assms have "lookup w name = Some e" by (simp add: lookup_def live_def)
  with assms True show ?thesis
    by (auto simp: redis_incr_def Let_def split: option.splits)
qed

lemma call_keeps_persistent:
  assumes "store w (count_key url) = Some e" "expire_at e = None"
  shows "\<exists>e'. store (snd (wrapper expiration func u w)) (count_key url) = Some e'
              \<and> expire_at e' = None"
  using incr_keeps_persistent [OF assms] by (simp add: wrapper_count_store)

lemma run_keeps_persistent:
  "store w (count_key url) = Some e \<Longrightarrow> expire_at e = None \<Longrightarrow>
   \<exists>e'. store (run ss w) (count_key url) = Some e' \<and> expire_at e' = None"
proof (induction ss arbitrary: w e)
  case Nil
  then show ?case by simp
next
  case (Cons s ss)
  show ?case
  proof (cases s)
    case (Invoke expiration func u)
    from call_keeps_persistent [OF Cons.prems, of expiration func u] obtain e1 where
      "store (snd (wrapper expiration func u w)) (count_key url) = Some e1" "expire_at e1 = None"
      by blast
    from Cons.IH [OF this] Invoke show ?thesis by simp
  next
    case (Sleep d)
    from Cons.prems have "store (sleep d w) (count_key url) = Some e" by (simp add: sleep_def)
    from Cons.IH [OF this Cons.prems(2)] Sleep show ?thesis by simp
  qed
qed

text \<open>The commands of a call that name a counter key.\<close>

lemma call_trace:
  "\<exists>rest. trace (snd (wrapper expiration func u w))
            = trace w @ (if unicode_text u then [Incr (count_key u)] else []) @ rest
          \<and> (\<forall>x \<in> set rest. \<forall>v. key_of x \<noteq> Some (count_key v))"
proof (cases rule: wrapper_paths [of u w expiration func])
  case (raise_incr e w1)
  then show ?thesis by (auto dest!: incr_trace)
next
  case (raise_get n w1 e w2)
  then show ?thesis by (auto dest!: incr_trace get_world)
next
  case (hit n w1 c w2)
  then show ?thesis by (auto dest!: incr_trace get_world)
next
  case (raise_func n w1 c w2 e w3)
  then show ?thesis by (auto dest!: incr_trace get_world invoke_world)
next
  case (raise_setex n w1 c w2 result w3 e w4)
  then show ?thesis by (auto dest!: incr_trace get_world invoke_world setex_raise)
next
  case (stored n w1 c w2 result w3 w4)
  then show ?thesis by (auto dest!: incr_trace get_world invoke_world setex_done)
qed

lemma run_trace:
  assumes "unicode_text url"
  shows "\<exists>new. trace (run ss w) = trace w @ new
             \<and> filter (\<lambda>x. key_of x = Some (count_key url)) new
                 = replicate (invocations ss url) (Incr (count_key url))"
proof (induction ss arbitrary: w)
  case Nil
  show ?case by simp
next
  case (Cons s ss)
  show ?case
  proof (cases s)
    case (Invoke expiration func u)
    let ?w1 = "snd (wrapper expiration func u w)"
    from call_trace [of expiration func u w] obtain rest where
      t1: "trace ?w1 = trace w @ (if unicode_text u then [Incr (count_key u)] else []) @ rest"
      and rest: "\<forall>x \<in> set rest. \<forall>v. key_of x \<noteq> Some (count_key v)"
      by blast
    from Cons.IH [of ?w1] obtain new where
      t2: "trace (run ss ?w1) = trace ?w1 @ new"
      and new: "filter (\<lambda>x. key_of x = Some (count_key url)) new
                 = replicate (invocations ss url) (Incr (count_key url))"
      by blast
    have f0: "filter (\<lambda>x. key_of x = Some (count_key url)) rest = []"
      using rest by (auto simp: filter_empty_conv)
    have f1: "filter (\<lambda>x. key_of x = Some (count_key url))
                (if unicode_text u then [Incr (count_key u)] else [])
              = replicate (if u = url then 1 else 0) (Incr (count_key url))"
      using assms by auto
    have "filter (\<lambda>x. key_of x = Some (count_key url))
            ((if unicode_text u then [Incr (count_key u)] else []) @ rest @ new)
          = replicate (invocations (s # ss) url) (Incr (count_key url))"
      unfolding filter_append f0 f1 new using Invoke by (simp add: replicate_add [symmetric])
    moreover have "trace (run (s # ss) w)
          = trace w @ ((if unicode_text u then [Incr (count_key u)] else []) @ rest @ new)"
      using Invoke t1 t2 by simp
    ultimately show ?thesis by blast
  next
    case (Sleep d)
    from Cons.IH [of "sleep d w"] Sleep show ?thesis by (simp add: sleep_def)
  qed
qed

lemma run_effects:
  assumes "unicode_text url"
  shows "filter (\<lambda>x. key_of x = Some (count_key url)) (effects_since w (run ss w))
           = replicate (invocations ss url) (Incr (count_key url))"
  using run_trace [OF assms, of ss w] by (auto simp: effects_since_def)

section \<open>Properties of the caching counter\<close>

text \<open>
  The theorems below speak of calls in a world where the store can serve them: the URL is
  text the client can encode (\<open>unicode_text\<close>), and the counter key is absent or holds,
  without expiry, an integer below the 64-bit maximum (\<open>counter\<close>, \<open>counter_ok\<close>).
  Closed instances are computed with the definitions collected here.
\<close>

lemmas eval_defs = wrapper_def redis_incr_def redis_get_def redis_setex_def invoke_def
  lookup_def live_def truthy_def count_key_def cache_key_def str_lit_def encode_cp_def
  ll2string_def Let_def digits.simps digit_byte_def string2ll_def parse_positive_def
  is_digit_def is_cont_def is_surrogate_def unicode_text_def counter_def counter_ok_def
  cached_def cache_hit_def effects_since_def sleep_def fresh_world_def returns_def raises_def
  responds_def cache_and_count_def get_page_def get_page_body_def

text \<open>
  C1. One call of the wrapper on \<open>url\<close> adds exactly 1 to the counter at
  \<open>count:<url>\<close>; the increment is the first effect of the call and comes before the
  lookup of \<open>cache:<url>\<close>, whether the call then hits or misses, returns or raises; no
  second increment follows. Hence, from a counter at 0, after any history with \<open>k\<close> calls
  on \<open>url\<close> (and any calls on other URLs, and any waiting) the counter is \<open>k\<close>.
\<close>

theorem counter_incremented_by_every_call:
  assumes "unicode_text url" and "counter w url = Some n"
  shows "(n < 2 ^ 63 - 1 \<longrightarrow>
            counter (snd (wrapper expiration func url w)) url = Some (n + 1)
          \<and> (\<exists>rest. effects_since w (snd (wrapper expiration func url w))
                      = Incr (count_key url) # Get (cache_key url) # rest
                    \<and> (\<forall>k. Incr k \<notin> set rest)))
       \<and> (n = 0 \<and> int (invocations ss url) < 2 ^ 63 \<longrightarrow>
            counter (run ss w) url = Some (int (invocations ss url)))"
proof (intro conjI impI)
  assume n: "n < 2 ^ 63 - 1"
  show "counter (snd (wrapper expiration func url w)) url = Some (n + 1)"
    by (rule call_counts [OF assms n])
  have ok: "counter_ok w url" by (rule counter_okI [OF assms(2) n])
  show "\<exists>rest. effects_since w (snd (wrapper expiration func url w))
                  = Incr (count_key url) # Get (cache_key url) # rest
                \<and> (\<forall>k. Incr k \<notin> set rest)"
  proof (cases "cache_hit w url")
    case True
    from call_hit(1) [OF assms(1) ok True, of expiration func] show ?thesis by simp
  next
    case False
    from call_miss(1) [OF assms(1) ok False, of expiration func] show ?thesis by auto
  qed
next
  assume "n = 0 \<and> int (invocations ss url) < 2 ^ 63"
  with run_counts [OF assms(1), of w 0 ss] assms(2) show
    "counter (run ss w) url = Some (int (invocations ss url))" by simp
qed

theorem counter_incremented_by_every_call_witness:
  "unicode_text (str_lit ''http://x'')
   \<and> counter fresh_world (str_lit ''http://x'') = Some 0
   \<and> counter (snd (wrapper 10 (returns 1 (str_lit ''A'')) (str_lit ''http://x'') fresh_world))
        (str_lit ''http://x'') = Some 1
   \<and> counter (run [Invoke 10 (returns 1 (str_lit ''A'')) (str_lit ''http://x''),
                   Sleep 2,
                   Invoke 10 (raises 1 Timeout) (str_lit ''http://y''),
                   Invoke 10 (returns 1 (str_lit ''B'')) (str_lit ''http://x'')] fresh_world)
        (str_lit ''http://x'') = Some 2"
proof -
  have u: "unicode_text (str_lit ''http://x'')" by (simp add: eval_defs)
  have c: "counter fresh_world (str_lit ''http://x'') = Some 0" by (simp add: eval_defs)
  from counter_incremented_by_every_call [OF u c,
      of 10 "returns 1 (str_lit ''A'')"
         "[Invoke 10 (returns 1 (str_lit ''A'')) (str_lit ''http://x''),
           Sleep 2,
           Invoke 10 (raises 1 Timeout) (str_lit ''http://y''),
           Invoke 10 (returns 1 (str_lit ''B'')) (str_lit ''http://x'')]"]
  show ?thesis using u c by (simp add: str_lit_def)
qed

text \<open>
  C2. Whenever an entry at \<open>cache:<url>\<close> is present and not expired, the call is to
  return the stored value without invoking the wrapped function. The source tests the
  reply of \<open>get\<close> with \<open>if cached_result:\<close> under the comment "Check if the result is
  cached", and the empty byte string is false: a cached empty result is fetched again.
  Below, the first call stores the empty result of the wrapped function with expiry at
  second 11; at second 3 the entry is still there, and yet the second call invokes the
  wrapped function, returns its new result and overwrites the entry.
\<close>

theorem empty_entry_is_refetched:
  "cached (sleep 2 (snd (wrapper 10 (returns 1 []) (str_lit ''http://x'') fresh_world)))
      (str_lit ''http://x'') = Some []
   \<and> lookup (sleep 2 (snd (wrapper 10 (returns 1 []) (str_lit ''http://x'') fresh_world)))
      (cache_key (str_lit ''http://x'')) = Some \<lparr>data = [], expire_at = Some 11\<rparr>
   \<and> clock (sleep 2 (snd (wrapper 10 (returns 1 []) (str_lit ''http://x'') fresh_world))) = 3
   \<and> fst (wrapper 10 (returns 1 (str_lit ''B'')) (str_lit ''http://x'')
            (sleep 2 (snd (wrapper 10 (returns 1 []) (str_lit ''http://x'') fresh_world))))
       = Inr (str_lit ''B'')
   \<and> effects_since
         (sleep 2 (snd (wrapper 10 (returns 1 []) (str_lit ''http://x'') fresh_world)))
         (snd (wrapper 10 (returns 1 (str_lit ''B'')) (str_lit ''http://x'')
            (sleep 2 (snd (wrapper 10 (returns 1 []) (str_lit ''http://x'') fresh_world)))))
       = [Incr (count_key (str_lit ''http://x'')), Get (cache_key (str_lit ''http://x'')),
          Fetch (str_lit ''http://x''), Setex (cache_key (str_lit ''http://x'')) 10 [0x42]]"
  by (simp add: eval_defs)

text \<open>
  For a value that is not empty the test does find the entry: the call sends only the
  increment and the lookup, leaves the entry as it is and does not invoke the wrapped
  function; it returns the bytes decoded as UTF-8, or raises \<open>UnicodeDecodeError\<close> when
  they are no UTF-8. After a miss that stored a non-empty result, a second call at most
  \<open>expiration\<close> seconds after the write returns that result.
\<close>

theorem nonempty_entry_is_a_hit:
  assumes "unicode_text url" and "counter_ok w url"
  shows "(\<forall>bs. cached w url = Some bs \<and> bs \<noteq> [] \<longrightarrow>
            fst (wrapper expiration func url w)
              = (case utf8_decode bs of None \<Rightarrow> Inl UnicodeDecodeError | Some s \<Rightarrow> Inr s)
          \<and> effects_since w (snd (wrapper expiration func url w))
              = [Incr (count_key url), Get (cache_key url)]
          \<and> store (snd (wrapper expiration func url w)) (cache_key url)
              = store w (cache_key url))
       \<and> (\<forall>d result t func2.
            \<not> cache_hit w url \<and> func url = (d, Inr result) \<and> unicode_text result
            \<and> result \<noteq> [] \<and> 0 < expiration \<and> t \<le> nat expiration
            \<and> counter_ok (snd (wrapper expiration func url w)) url \<longrightarrow>
              fst (wrapper expiration func2 url (sleep t (snd (wrapper expiration func url w))))
                = Inr result
            \<and> effects_since (sleep t (snd (wrapper expiration func url w)))
                 (snd (wrapper expiration func2 url (sleep t (snd (wrapper expiration func url w)))))
                = [Incr (count_key url), Get (cache_key url)])"
proof (intro conjI allI impI)
  fix bs
  assume b: "cached w url = Some bs \<and> bs \<noteq> []"
  then have hit: "cache_hit w url" by (auto simp: cache_hit_iff)
  from b show "fst (wrapper expiration func url w)
              = (case utf8_decode bs of None \<Rightarrow> Inl UnicodeDecodeError | Some s \<Rightarrow> Inr s)"
    using hit_result [OF assms] by blast
  show "effects_since w (snd (wrapper expiration func url w))
              = [Incr (count_key url), Get (cache_key url)]"
    by (rule call_hit(1) [OF assms hit])
  show "store (snd (wrapper expiration func url w)) (cache_key url) = store w (cache_key url)"
    by (rule call_hit(2) [OF assms hit])
next
  fix d result t func2
  let ?w1 = "snd (wrapper expiration func url w)"
  assume a: "\<not> cache_hit w url \<and> func url = (d, Inr result) \<and> unicode_text result
            \<and> result \<noteq> [] \<and> 0 < expiration \<and> t \<le> nat expiration
            \<and> counter_ok ?w1 url"
  from counter_okD [OF assms(2)] obtain n where n: "counter w url = Some n" "n < 2 ^ 63 - 1"
    by blast
  from a utf8_encode_text obtain bs where bs: "utf8_encode result = Some bs" by blast
  from a have f: "func url = (d, Inr result)" and miss: "\<not> cache_hit w url"
    and pos: "0 < expiration" and t: "t \<le> nat expiration" by simp_all
  note am = after_miss_store [where func = func, OF assms(1) n miss f bs pos]
  have c: "cached (sleep t ?w1) url = utf8_encode result"
    using am(4) [OF t] bs by simp
  have "counter (sleep t ?w1) url = counter ?w1 url"
    using am(1) [of t] am(1) [of 0] by (simp add: sleep_def)
  with a have ok: "counter_ok (sleep t ?w1) url" by (simp add: counter_ok_def)
  from a have r: "unicode_text result" "result \<noteq> []" by simp_all
  show "fst (wrapper expiration func2 url (sleep t ?w1)) = Inr result"
    by (rule hit_of_encoded(1) [OF assms(1) ok c r])
  show "effects_since (sleep t ?w1) (snd (wrapper expiration func2 url (sleep t ?w1)))
          = [Incr (count_key url), Get (cache_key url)]"
    by (rule call_hit(1) [OF assms(1) ok hit_of_encoded(2) [OF assms(1) ok c r]])
qed

theorem nonempty_entry_is_a_hit_witness:
  "unicode_text (str_lit ''http://x'') \<and> counter_ok fresh_world (str_lit ''http://x'')
   \<and> \<not> cache_hit fresh_world (str_lit ''http://x'')
   \<and> fst (wrapper 10 (returns 1 (str_lit ''B'')) (str_lit ''http://x'')
            (sleep 9 (snd (wrapper 10 (returns 1 (str_lit ''A'')) (str_lit ''http://x'') fresh_world))))
       = Inr (str_lit ''A'')
   \<and> effects_since
         (sleep 9 (snd (wrapper 10 (returns 1 (str_lit ''A'')) (str_lit ''http://x'') fresh_world)))
         (snd (wrapper 10 (returns 1 (str_lit ''B'')) (str_lit ''http://x'')
            (sleep 9 (snd (wrapper 10 (returns 1 (str_lit ''A'')) (str_lit ''http://x'') fresh_world)))))
       = [Incr (count_key (str_lit ''http://x'')), Get (cache_key (str_lit ''http://x''))]"
proof -
  let ?u = "str_lit ''http://x''"
  let ?w1 = "snd (wrapper 10 (returns 1 (str_lit ''A'')) ?u fresh_world)"
  have h: "unicode_text ?u" "counter_ok fresh_world ?u" by (simp_all add: eval_defs)
  have a: "\<not> cache_hit fresh_world ?u \<and> returns 1 (str_lit ''A'') ?u = (1, Inr (str_lit ''A''))
        \<and> unicode_text (str_lit ''A'') \<and> str_lit ''A'' \<noteq> [] \<and> (0::int) < 10 \<and> (9::nat) \<le> nat 10
        \<and> counter_ok ?w1 ?u"
    by (simp add: eval_defs)
  from nonempty_entry_is_a_hit [where func = "returns 1 (str_lit ''A'')" and expiration = 10, OF h] a
  have "fst (wrapper 10 (returns 1 (str_lit ''B'')) ?u (sleep 9 ?w1)) = Inr (str_lit ''A'')
      \<and> effects_since (sleep 9 ?w1) (snd (wrapper 10 (returns 1 (str_lit ''B'')) ?u (sleep 9 ?w1)))
          = [Incr (count_key ?u), Get (cache_key ?u)]"
    by blast
  with h a show ?thesis by blast
qed

text \<open>
  C3. On a miss (no entry at \<open>cache:<url>\<close> that the wrapper takes for a hit) where the
  wrapped function returns \<open>result\<close>, the call invokes the function exactly once, stores
  the UTF-8 bytes of \<open>result\<close> at \<open>cache:<url>\<close> to expire \<open>expiration\<close> seconds after
  the moment of the write, and returns \<open>result\<close> itself. With the argument of
  \<open>cache_and_count\<close> left out the expiration is 10. The store takes the write when
  \<open>result\<close> is encodable text and the expiration is positive.
\<close>

theorem miss_fetches_once_stores_and_returns:
  assumes "unicode_text url" and "counter_ok w url"
    and "\<not> cache_hit w url" and "func url = (d, Inr result)"
    and "unicode_text result" and "0 < expiration"
  shows "\<exists>bs. utf8_encode result = Some bs
           \<and> fst (wrapper expiration func url w) = Inr result
           \<and> effects_since w (snd (wrapper expiration func url w))
               = [Incr (count_key url), Get (cache_key url), Fetch url,
                  Setex (cache_key url) expiration bs]
           \<and> clock (snd (wrapper expiration func url w)) = clock w + d
           \<and> store (snd (wrapper expiration func url w)) (cache_key url)
               = Some \<lparr>data = bs, expire_at = Some (clock w + d + nat expiration)\<rparr>
           \<and> cache_and_count None func = wrapper 10 func
           \<and> cache_and_count (Some expiration) func = wrapper expiration func"
proof -
  from counter_okD [OF assms(2)] obtain n where n: "counter w url = Some n" "n < 2 ^ 63 - 1"
    by blast
  from utf8_encode_text [OF assms(5)] obtain bs where bs: "utf8_encode result = Some bs"
    by blast
  note s = wrapper_miss_store [where func = func, OF assms(1) n assms(3,4) bs assms(6)]
  show ?thesis
    by (rule exI [of _ bs]) (simp add: s bs cache_and_count_def)
qed

theorem miss_fetches_once_stores_and_returns_witness:
  "unicode_text (str_lit ''http://x'') \<and> counter_ok fresh_world (str_lit ''http://x'')
   \<and> \<not> cache_hit fresh_world (str_lit ''http://x'')
   \<and> fst (cache_and_count None (returns 1 (str_lit ''A'')) (str_lit ''http://x'') fresh_world)
       = Inr (str_lit ''A'')
   \<and> store (snd (cache_and_count None (returns 1 (str_lit ''A'')) (str_lit ''http://x'') fresh_world))
        (cache_key (str_lit ''http://x''))
       = Some \<lparr>data = [0x41], expire_at = Some 11\<rparr>"
proof -
  have h: "unicode_text (str_lit ''http://x'')" "counter_ok fresh_world (str_lit ''http://x'')"
    "\<not> cache_hit fresh_world (str_lit ''http://x'')"
    "returns 1 (str_lit ''A'') (str_lit ''http://x'') = (1, Inr (str_lit ''A''))"
    "unicode_text (str_lit ''A'')" "(0::int) < 10"
    by (simp_all add: eval_defs)
  from miss_fetches_once_stores_and_returns
         [where func = "returns 1 (str_lit ''A'')" and expiration = 10, OF h]
  show ?thesis using h by (auto simp: fresh_world_def str_lit_def encode_cp_def)
qed

text \<open>
  C4. On a miss where the wrapped function raises \<open>e\<close>, the call raises the same \<open>e\<close>,
  sends no \<open>SETEX\<close> and leaves \<open>cache:<url>\<close> as it was, and the counter keeps its
  increment. The URL stays a miss however long one waits, so the next call invokes the
  wrapped function again.
\<close>

theorem fetch_failure_propagates:
  assumes "unicode_text url" and "counter w url = Some n" and "n < 2 ^ 63 - 1"
    and "\<not> cache_hit w url" and "func url = (d, Inl e)"
  shows "fst (wrapper expiration func url w) = Inl e
       \<and> effects_since w (snd (wrapper expiration func url w))
           = [Incr (count_key url), Get (cache_key url), Fetch url]
       \<and> store (snd (wrapper expiration func url w)) (cache_key url) = store w (cache_key url)
       \<and> counter (snd (wrapper expiration func url w)) url = Some (n + 1)
       \<and> (\<forall>t. \<not> cache_hit (sleep t (snd (wrapper expiration func url w))) url)
       \<and> (\<forall>t expiration2 func2. n + 1 < 2 ^ 63 - 1 \<longrightarrow>
            (\<exists>rest. effects_since (sleep t (snd (wrapper expiration func url w)))
                      (snd (wrapper expiration2 func2 url
                             (sleep t (snd (wrapper expiration func url w)))))
                    = Incr (count_key url) # Get (cache_key url) # Fetch url # rest))"
proof -
  let ?w' = "snd (wrapper expiration func url w)"
  note r = wrapper_miss_raise [where func = func, OF assms]
  have c: "counter ?w' url = Some (n + 1)" by (rule call_counts [OF assms(1-3)])
  have miss: "\<not> cache_hit (sleep t ?w') url" for t
    by (rule miss_stays_miss [OF assms(4)]) (simp_all add: r sleep_def)
  have again: "\<exists>rest. effects_since (sleep t ?w') (snd (wrapper expiration2 func2 url (sleep t ?w')))
                 = Incr (count_key url) # Get (cache_key url) # Fetch url # rest"
    if "n + 1 < 2 ^ 63 - 1" for t expiration2 func2
  proof -
    have "counter_ok (sleep t ?w') url"
      by (rule counter_okI [OF sleep_counter [OF c] that])
    from call_miss(1) [OF assms(1) this miss, of expiration2 func2] show ?thesis by auto
  qed
  show ?thesis using c miss again by (simp add: r)
qed

theorem fetch_failure_propagates_witness:
  "unicode_text (str_lit ''http://x'') \<and> counter fresh_world (str_lit ''http://x'') = Some 0
   \<and> \<not> cache_hit fresh_world (str_lit ''http://x'')
   \<and> fst (wrapper 10 (raises 3 Timeout) (str_lit ''http://x'') fresh_world) = Inl Timeout
   \<and> counter (snd (wrapper 10 (raises 3 Timeout) (str_lit ''http://x'') fresh_world))
        (str_lit ''http://x'') = Some 1
   \<and> store (snd (wrapper 10 (raises 3 Timeout) (str_lit ''http://x'') fresh_world))
        (cache_key (str_lit ''http://x'')) = None"
proof -
  have h: "unicode_text (str_lit ''http://x'')" "counter fresh_world (str_lit ''http://x'') = Some 0"
    "(0::int) < 2 ^ 63 - 1" "\<not> cache_hit fresh_world (str_lit ''http://x'')"
    "raises 3 Timeout (str_lit ''http://x'') = (3, Inl Timeout)"
    by (simp_all add: eval_defs)
  from fetch_failure_propagates
         [where func = "raises 3 Timeout" and expiration = 10, OF h]
  show ?thesis using h by (simp add: fresh_world_def)
qed

text \<open>
  C5. Once more than \<open>expiration\<close> seconds have passed since a miss wrote the entry for
  \<open>url\<close>, the entry is gone and the next call is a miss again: the wrapped function is
  invoked, and its result is returned and stored with a fresh expiry.
\<close>

theorem expired_entry_is_a_miss_again:
  assumes "unicode_text url" and "counter w url = Some n" and "n + 1 < 2 ^ 63 - 1"
    and "\<not> cache_hit w url" and "func url = (d, Inr result)" and "unicode_text result"
    and "0 < expiration" and "nat expiration < t"
    and "func' url = (d', Inr result')" and "unicode_text result'"
  shows "\<exists>bs bs'.
           utf8_encode result = Some bs \<and> utf8_encode result' = Some bs'
         \<and> store (snd (wrapper expiration func url w)) (cache_key url)
             = Some \<lparr>data = bs,
                      expire_at = Some (clock (snd (wrapper expiration func url w)) + nat expiration)\<rparr>
         \<and> clock (sleep t (snd (wrapper expiration func url w)))
             = clock (snd (wrapper expiration func url w)) + t
         \<and> cached (sleep t (snd (wrapper expiration func url w))) url = None
         \<and> fst (wrapper expiration func' url (sleep t (snd (wrapper expiration func url w))))
             = Inr result'
         \<and> effects_since (sleep t (snd (wrapper expiration func url w)))
              (snd (wrapper expiration func' url (sleep t (snd (wrapper expiration func url w)))))
             = [Incr (count_key url), Get (cache_key url), Fetch url,
                Setex (cache_key url) expiration bs']
         \<and> store (snd (wrapper expiration func' url (sleep t (snd (wrapper expiration func url w)))))
              (cache_key url)
             = Some \<lparr>data = bs',
                      expire_at = Some (clock (sleep t (snd (wrapper expiration func url w)))
                                        + d' + nat expiration)\<rparr>"
proof -
  let ?w1 = "snd (wrapper expiration func url w)"
  let ?w2 = "sleep t ?w1"
  have n: "n < 2 ^ 63 - 1" using assms(3) by simp
  from utf8_encode_text [OF assms(6)] obtain bs where bs: "utf8_encode result = Some bs" by blast
  from utf8_encode_text [OF assms(10)] obtain bs' where bs': "utf8_encode result' = Some bs'"
    by blast
  note am = after_miss_store [where func = func, OF assms(1,2) n assms(4,5) bs assms(7)]
  have c1: "clock ?w1 = clock w + d" using am(3) [of 0] by (simp add: sleep_def)
  have st1: "store ?w1 (cache_key url)
             = Some \<lparr>data = bs, expire_at = Some (clock ?w1 + nat expiration)\<rparr>"
    using am(2) [of 0] by (simp add: sleep_def c1)
  have c2: "clock ?w2 = clock ?w1 + t" by (simp add: sleep_def)
  have gone: "cached ?w2 url = None" by (rule am(5) [OF assms(8)])
  then have miss2: "\<not> cache_hit ?w2 url" by (simp add: cache_hit_iff)
  note s2 = wrapper_miss_store [where func = func', OF assms(1) am(1) assms(3) miss2 assms(9) bs'
      assms(7)]
  show ?thesis
    apply (rule exI [of _ bs], rule exI [of _ bs'])
    apply (intro conjI)
           apply (rule bs)
          apply (rule bs')
         apply (rule st1)
        apply (rule c2)
       apply (rule gone)
      apply (simp add: s2)
     apply (simp add: s2)
    apply (simp add: s2)
    done
qed

theorem expired_entry_is_a_miss_again_witness:
  "unicode_text (str_lit ''http://x'') \<and> counter fresh_world (str_lit ''http://x'') = Some 0
   \<and> \<not> cache_hit fresh_world (str_lit ''http://x'')
   \<and> cached (sleep 11 (snd (wrapper 10 (returns 1 (str_lit ''A'')) (str_lit ''http://x'') fresh_world)))
        (str_lit ''http://x'') = None
   \<and> fst (wrapper 10 (returns 1 (str_lit ''B'')) (str_lit ''http://x'')
            (sleep 11 (snd (wrapper 10 (returns 1 (str_lit ''A'')) (str_lit ''http://x'') fresh_world))))
       = Inr (str_lit ''B'')"
proof -
  let ?u = "str_lit ''http://x''"
  have h: "unicode_text ?u" "counter fresh_world ?u = Some 0" "(0::int) + 1 < 2 ^ 63 - 1"
    "\<not> cache_hit fresh_world ?u" "returns 1 (str_lit ''A'') ?u = (1, Inr (str_lit ''A''))"
    "unicode_text (str_lit ''A'')" "(0::int) < 10" "nat 10 < (11::nat)"
    "returns 1 (str_lit ''B'') ?u = (1, Inr (str_lit ''B''))" "unicode_text (str_lit ''B'')"
    by (simp_all add: eval_defs)
  from expired_entry_is_a_miss_again
         [where func = "returns 1 (str_lit ''A'')" and func' = "returns 1 (str_lit ''B'')"
            and expiration = 10, OF h]
  show ?thesis using h by blast
qed

text \<open>
  C6, as stated: a non-2xx response of the HTTP request counts as a failure of the wrapped
  function, so that the error propagates and nothing is cached. In the source
  \<open>get_page\<close> never looks at the status code: the body of a 404 response is returned
  as an ordinary result, cached, and served again from the cache on the next call, even
  when the site answers 200 by then.
\<close>

theorem error_page_is_cached:
  "fst (get_page (responds 1 404 (str_lit ''Not Found'')) (str_lit ''http://x'') fresh_world)
     = Inr (str_lit ''Not Found'')
   \<and> cached (snd (get_page (responds 1 404 (str_lit ''Not Found'')) (str_lit ''http://x'') fresh_world))
       (str_lit ''http://x'')
     = Some [0x4E, 0x6F, 0x74, 0x20, 0x46, 0x6F, 0x75, 0x6E, 0x64]
   \<and> fst (get_page (responds 1 200 (str_lit ''OK'')) (str_lit ''http://x'')
           (snd (get_page (responds 1 404 (str_lit ''Not Found'')) (str_lit ''http://x'') fresh_world)))
     = Inr (str_lit ''Not Found'')"
  by (simp add: eval_defs)

text \<open>
  C6, amended: whatever the status code of the response, \<open>get_page\<close> on a miss returns
  the response's text and caches it; only an exception raised by the HTTP request itself
  propagates to the caller, and then no entry is written for that URL.
\<close>

theorem get_page_caches_every_response:
  assumes "unicode_text url" and "counter_ok w url" and "\<not> cache_hit w url"
  shows "(\<forall>d r. requests_get url = (d, Inr r) \<and> unicode_text (resp_text r) \<longrightarrow>
            fst (get_page requests_get url w) = Inr (resp_text r)
          \<and> cached (snd (get_page requests_get url w)) url = utf8_encode (resp_text r)
          \<and> Fetch url \<in> set (effects_since w (snd (get_page requests_get url w))))
       \<and> (\<forall>d e. requests_get url = (d, Inl e) \<longrightarrow>
            fst (get_page requests_get url w) = Inl e
          \<and> store (snd (get_page requests_get url w)) (cache_key url) = store w (cache_key url)
          \<and> \<not> cache_hit (snd (get_page requests_get url w)) url)"
proof (intro conjI allI impI)
  from counter_okD [OF assms(2)] obtain n where n: "counter w url = Some n" "n < 2 ^ 63 - 1"
    by blast
  have g: "get_page requests_get url w = wrapper 10 (get_page_body requests_get) url w"
    by (simp add: get_page_def cache_and_count_def)
  {
    fix d r
    assume a: "requests_get url = (d, Inr r) \<and> unicode_text (resp_text r)"
    then have f: "get_page_body requests_get url = (d, Inr (resp_text r))"
      by (simp add: get_page_body_def)
    from a utf8_encode_text obtain bs where bs: "utf8_encode (resp_text r) = Some bs" by blast
    note s = wrapper_miss_store [where func = "get_page_body requests_get" and expiration = 10,
        OF assms(1) n assms(3) f bs]
    show "fst (get_page requests_get url w) = Inr (resp_text r)" by (simp add: g s)
    have "cached (snd (get_page requests_get url w)) url = Some bs"
      by (rule stored_then_cached [where t = "clock w + d + nat 10"]) (simp_all add: g s)
    then show "cached (snd (get_page requests_get url w)) url = utf8_encode (resp_text r)"
      by (simp add: bs)
    show "Fetch url \<in> set (effects_since w (snd (get_page requests_get url w)))"
      by (simp add: g s)
  }
  {
    fix d e
    assume a: "requests_get url = (d, Inl e)"
    then have f: "get_page_body requests_get url = (d, Inl e)"
      by (simp add: get_page_body_def)
    note r = wrapper_miss_raise [where func = "get_page_body requests_get" and expiration = 10,
        OF assms(1) n assms(3) f]
    show "fst (get_page requests_get url w) = Inl e" by (simp add: g r)
    show st: "store (snd (get_page requests_get url w)) (cache_key url) = store w (cache_key url)"
      by (simp add: g r)
    show "\<not> cache_hit (snd (get_page requests_get url w)) url"
      by (rule miss_stays_miss [OF assms(3) st]) (simp add: g r)
  }
qed

theorem get_page_caches_every_response_witness:
  "unicode_text (str_lit ''http://x'') \<and> counter_ok fresh_world (str_lit ''http://x'')
   \<and> \<not> cache_hit fresh_world (str_lit ''http://x'')
   \<and> fst (get_page (responds 1 503 (str_lit ''busy'')) (str_lit ''http://x'') fresh_world)
       = Inr (str_lit ''busy'')
   \<and> cached (snd (get_page (responds 1 503 (str_lit ''busy'')) (str_lit ''http://x'') fresh_world))
        (str_lit ''http://x'') = utf8_encode (str_lit ''busy'')
   \<and> fst (get_page (\<lambda>url. (30, Inl Timeout)) (str_lit ''http://x'') fresh_world) = Inl Timeout
   \<and> store (snd (get_page (\<lambda>url. (30, Inl Timeout)) (str_lit ''http://x'') fresh_world))
        (cache_key (str_lit ''http://x'')) = None"
proof -
  let ?u = "str_lit ''http://x''"
  have h: "unicode_text ?u" "counter_ok fresh_world ?u" "\<not> cache_hit fresh_world ?u"
    by (simp_all add: eval_defs)
  have a: "responds 1 503 (str_lit ''busy'') ?u = (1, Inr \<lparr>status_code = 503, resp_text = str_lit ''busy''\<rparr>)
           \<and> unicode_text (resp_text \<lparr>status_code = 503, resp_text = str_lit ''busy''\<rparr>)"
    by (simp add: eval_defs)
  from get_page_caches_every_response [where requests_get = "responds 1 503 (str_lit ''busy'')", OF h] a
  have 1: "fst (get_page (responds 1 503 (str_lit ''busy'')) ?u fresh_world)
          = Inr (resp_text \<lparr>status_code = 503, resp_text = str_lit ''busy''\<rparr>)
        \<and> cached (snd (get_page (responds 1 503 (str_lit ''busy'')) ?u fresh_world)) ?u
          = utf8_encode (resp_text \<lparr>status_code = 503, resp_text = str_lit ''busy''\<rparr>)"
    by blast
  have b: "(\<lambda>url. (30::nat, Inl Timeout :: exn + response)) ?u = (30, Inl Timeout)" by simp
  from get_page_caches_every_response [where requests_get = "\<lambda>url. (30, Inl Timeout)", OF h] b
  have 2: "fst (get_page (\<lambda>url. (30, Inl Timeout)) ?u fresh_world) = Inl Timeout
         \<and> store (snd (get_page (\<lambda>url. (30, Inl Timeout)) ?u fresh_world)) (cache_key ?u)
            = store fresh_world (cache_key ?u)"
    by blast
  have 3: "store fresh_world (cache_key ?u) = None" by (simp add: fresh_world_def)
  from h 1 2 3 show ?thesis by simp
qed



text \<open>
  C8. The wrapper attaches no expiry to \<open>count:<url>\<close>: the key it creates or increments
  has none, and a key without expiry stays one through any history of calls and waiting.
  The only commands of a history that name the key are the increments, one for each call
  on \<open>url\<close>. So the counter stays defined and its value never decreases.
\<close>

theorem counter_key_persists_and_never_decreases:
  assumes "unicode_text url" and "counter w url = Some m"
  shows "(\<forall>expiration func. m < 2 ^ 63 - 1 \<longrightarrow>
            store (snd (wrapper expiration func url w)) (count_key url)
              = Some \<lparr>data = ll2string (m + 1), expire_at = None\<rparr>)
       \<and> (\<forall>e. store w (count_key url) = Some e \<and> expire_at e = None \<longrightarrow>
            (\<exists>e'. store (run ss w) (count_key url) = Some e' \<and> expire_at e' = None))
       \<and> (\<exists>m'. counter (run ss w) url = Some m' \<and> m \<le> m')
       \<and> filter (\<lambda>x. key_of x = Some (count_key url)) (effects_since w (run ss w))
           = replicate (invocations ss url) (Incr (count_key url))"
proof (intro conjI allI impI)
  fix expiration func
  assume "m < 2 ^ 63 - 1"
  then show "store (snd (wrapper expiration func url w)) (count_key url)
              = Some \<lparr>data = ll2string (m + 1), expire_at = None\<rparr>"
    by (simp add: wrapper_count_store redis_incr_ok [OF assms])
next
  fix e
  assume "store w (count_key url) = Some e \<and> expire_at e = None"
  then show "\<exists>e'. store (run ss w) (count_key url) = Some e' \<and> expire_at e' = None"
    using run_keeps_persistent [of w url e ss] by blast
next
  show "\<exists>m'. counter (run ss w) url = Some m' \<and> m \<le> m'"
    by (rule run_counter_mono [OF assms(2)])
  show "filter (\<lambda>x. key_of x = Some (count_key url)) (effects_since w (run ss w))
           = replicate (invocations ss url) (Incr (count_key url))"
    by (rule run_effects [OF assms(1)])
qed

theorem counter_key_persists_and_never_decreases_witness:
  "unicode_text (str_lit ''http://x'')
   \<and> counter (snd (wrapper 10 (returns 1 (str_lit ''A'')) (str_lit ''http://x'') fresh_world))
        (str_lit ''http://x'') = Some 1
   \<and> store (snd (wrapper 10 (returns 1 (str_lit ''A'')) (str_lit ''http://x'') fresh_world))
        (count_key (str_lit ''http://x'')) = Some \<lparr>data = [0x31], expire_at = None\<rparr>
   \<and> (\<exists>e'. store (run [Sleep 100000, Invoke 5 (raises 1 Timeout) (str_lit ''http://x'')]
                     (snd (wrapper 10 (returns 1 (str_lit ''A'')) (str_lit ''http://x'') fresh_world)))
                (count_key (str_lit ''http://x'')) = Some e' \<and> expire_at e' = None)
   \<and> (\<exists>m'. counter (run [Sleep 100000, Invoke 5 (raises 1 Timeout) (str_lit ''http://x'')]
                     (snd (wrapper 10 (returns 1 (str_lit ''A'')) (str_lit ''http://x'') fresh_world)))
                 (str_lit ''http://x'') = Some m' \<and> 1 \<le> m')
   \<and> filter (\<lambda>x. key_of x = Some (count_key (str_lit ''http://x'')))
        (effects_since (snd (wrapper 10 (returns 1 (str_lit ''A'')) (str_lit ''http://x'') fresh_world))
           (run [Sleep 100000, Invoke 5 (raises 1 Timeout) (str_lit ''http://x'')]
              (snd (wrapper 10 (returns 1 (str_lit ''A'')) (str_lit ''http://x'') fresh_world))))
      = [Incr (count_key (str_lit ''http://x''))]"
proof -
  let ?u = "str_lit ''http://x''"
  let ?w1 = "snd (wrapper 10 (returns 1 (str_lit ''A'')) ?u fresh_world)"
  have h: "unicode_text ?u" "counter ?w1 ?u = Some 1" by (simp_all add: eval_defs)
  have s: "store ?w1 (count_key ?u) = Some \<lparr>data = [0x31], expire_at = None\<rparr>
           \<and> expire_at \<lparr>data = [0x31], expire_at = None\<rparr> = None"
    by (simp add: eval_defs)
  have i: "replicate (invocations [Sleep 100000, Invoke 5 (raises 1 Timeout) ?u] ?u)
             (Incr (count_key ?u)) = [Incr (count_key ?u)]"
    by simp
  from counter_key_persists_and_never_decreases
         [where ss = "[Sleep 100000, Invoke 5 (raises 1 Timeout) ?u]", OF h] s
  have "(\<exists>e'. store (run [Sleep 100000, Invoke 5 (raises 1 Timeout) ?u] ?w1) (count_key ?u) = Some e'
              \<and> expire_at e' = None)
      \<and> (\<exists>m'. counter (run [Sleep 100000, Invoke 5 (raises 1 Timeout) ?u] ?w1) ?u = Some m' \<and> 1 \<le> m')
      \<and> filter (\<lambda>x. key_of x = Some (count_key ?u))
           (effects_since ?w1 (run [Sleep 100000, Invoke 5 (raises 1 Timeout) ?u] ?w1))
         = replicate (invocations [Sleep 100000, Invoke 5 (raises 1 Timeout) ?u] ?u)
             (Incr (count_key ?u))"
    by blast
  with h s i show ?thesis by simp
qed

text \<open>
  C9. When the live value at \<open>cache:<url>\<close> is the empty byte string, the call is a miss:
  the wrapped function is invoked, and when it returns, the entry is rewritten with the
  new result and a new expiry. If the new result is empty again, the rewritten entry is
  empty again, so the next call within the window misses in the same way.
\<close>

theorem empty_cached_value_is_a_miss:
  assumes "unicode_text url" and "counter_ok w url" and "cached w url = Some []"
  shows "\<not> cache_hit w url
       \<and> (\<exists>rest. effects_since w (snd (wrapper expiration func url w))
                   = Incr (count_key url) # Get (cache_key url) # Fetch url # rest)
       \<and> (\<forall>d result bs.
            func url = (d, Inr result) \<and> utf8_encode result = Some bs \<and> 0 < expiration \<longrightarrow>
              fst (wrapper expiration func url w) = Inr result
            \<and> store (snd (wrapper expiration func url w)) (cache_key url)
                = Some \<lparr>data = bs, expire_at = Some (clock w + d + nat expiration)\<rparr>
            \<and> (result = [] \<longrightarrow> cached (snd (wrapper expiration func url w)) url = Some []))"
proof -
  let ?w' = "snd (wrapper expiration func url w)"
  have miss: "\<not> cache_hit w url" using assms(3) by (simp add: cache_hit_iff)
  from call_miss(1) [OF assms(1,2) miss, of expiration func]
  have fetched: "\<exists>rest. effects_since w ?w' = Incr (count_key url) # Get (cache_key url) # Fetch url # rest"
    by auto
  from counter_okD [OF assms(2)] obtain n where n: "counter w url = Some n" "n < 2 ^ 63 - 1"
    by blast
  have rewritten: "fst (wrapper expiration func url w) = Inr result
            \<and> store ?w' (cache_key url)
                = Some \<lparr>data = bs, expire_at = Some (clock w + d + nat expiration)\<rparr>
            \<and> (result = [] \<longrightarrow> cached ?w' url = Some [])"
    if "func url = (d, Inr result)" "utf8_encode result = Some bs" "0 < expiration"
    for d result bs
  proof -
    note s = wrapper_miss_store [where func = func, OF assms(1) n miss that]
    have st: "store ?w' (cache_key url)
                = Some \<lparr>data = bs, expire_at = Some (clock w + d + nat expiration)\<rparr>"
      by (simp add: s)
    have c: "cached ?w' url = Some bs"
      by (rule stored_then_cached [OF st]) (simp add: s)
    have e: "result = [] \<longrightarrow> cached ?w' url = Some []"
      using c \<open>utf8_encode result = Some bs\<close> by auto
    have f: "fst (wrapper expiration func url w) = Inr result" by (simp add: s)
    show ?thesis using f st e by blast
  qed
  show ?thesis using miss fetched rewritten by blast
qed

theorem empty_cached_value_is_a_miss_witness:
  "unicode_text (str_lit ''http://x'')
   \<and> counter_ok (snd (wrapper 10 (returns 1 []) (str_lit ''http://x'') fresh_world)) (str_lit ''http://x'')
   \<and> cached (snd (wrapper 10 (returns 1 []) (str_lit ''http://x'') fresh_world)) (str_lit ''http://x'')
       = Some []
   \<and> \<not> cache_hit (snd (wrapper 10 (returns 1 []) (str_lit ''http://x'') fresh_world))
         (str_lit ''http://x'')
   \<and> fst (wrapper 10 (returns 1 (str_lit ''B'')) (str_lit ''http://x'')
           (snd (wrapper 10 (returns 1 []) (str_lit ''http://x'') fresh_world)))
       = Inr (str_lit ''B'')"
proof -
  let ?w1 = "snd (wrapper 10 (returns 1 []) (str_lit ''http://x'') fresh_world)"
  have h: "unicode_text (str_lit ''http://x'')" "counter_ok ?w1 (str_lit ''http://x'')"
    "cached ?w1 (str_lit ''http://x'') = Some []"
    by (simp_all add: eval_defs)
  have f: "returns 1 (str_lit ''B'') (str_lit ''http://x'') = (1, Inr (str_lit ''B''))
           \<and> utf8_encode (str_lit ''B'') = Some [0x42] \<and> (0::int) < 10"
    by (simp add: eval_defs)
  from empty_cached_value_is_a_miss [OF h, of 10 "returns 1 (str_lit ''B'')"] f
  show ?thesis using h by blast
qed

text \<open>
  C10. On a hit the call returns the stored bytes decoded as UTF-8. When the stored bytes
  are the UTF-8 encoding of a text, decoding gives that text back, so a hit on the entry
  that a miss wrote returns exactly the text the wrapped function returned on that miss.
\<close>

theorem hit_decodes_what_the_miss_encoded:
  assumes "unicode_text url" and "counter_ok w url"
  shows "(\<forall>bs. cached w url = Some bs \<and> bs \<noteq> [] \<longrightarrow>
            fst (wrapper expiration func url w)
              = (case utf8_decode bs of None \<Rightarrow> Inl UnicodeDecodeError | Some s \<Rightarrow> Inr s))
       \<and> (\<forall>result bs. utf8_encode result = Some bs \<and> bs \<noteq> [] \<and> cached w url = Some bs \<longrightarrow>
            utf8_decode bs = Some result \<and> fst (wrapper expiration func url w) = Inr result)
       \<and> (\<forall>d result t func2.
            \<not> cache_hit w url \<and> func url = (d, Inr result) \<and> unicode_text result
            \<and> result \<noteq> [] \<and> 0 < expiration \<and> t \<le> nat expiration
            \<and> counter_ok (snd (wrapper expiration func url w)) url \<longrightarrow>
              cached (sleep t (snd (wrapper expiration func url w))) url = utf8_encode result
            \<and> fst (wrapper expiration func2 url (sleep t (snd (wrapper expiration func url w))))
                = Inr result)"
proof (intro conjI allI impI)
  fix bs
  assume "cached w url = Some bs \<and> bs \<noteq> []"
  then show "fst (wrapper expiration func url w)
              = (case utf8_decode bs of None \<Rightarrow> Inl UnicodeDecodeError | Some s \<Rightarrow> Inr s)"
    using hit_result [OF assms] by blast
next
  fix result bs
  assume a: "utf8_encode result = Some bs \<and> bs \<noteq> [] \<and> cached w url = Some bs"
  then show "utf8_decode bs = Some result" by (simp add: utf8_roundtrip)
  with a show "fst (wrapper expiration func url w) = Inr result"
    using hit_result [OF assms, of bs expiration func] by simp
next
  fix d result t func2
  let ?w1 = "snd (wrapper expiration func url w)"
  assume a: "\<not> cache_hit w url \<and> func url = (d, Inr result) \<and> unicode_text result
            \<and> result \<noteq> [] \<and> 0 < expiration \<and> t \<le> nat expiration
            \<and> counter_ok ?w1 url"
  from counter_okD [OF assms(2)] obtain n where n: "counter w url = Some n" "n < 2 ^ 63 - 1"
    by blast
  from a utf8_encode_text obtain bs where bs: "utf8_encode result = Some bs" by blast
  from a have f: "func url = (d, Inr result)" and miss: "\<not> cache_hit w url"
    and pos: "0 < expiration" and t: "t \<le> nat expiration" by simp_all
  note am = after_miss_store [where func = func, OF assms(1) n miss f bs pos]
  show c: "cached (sleep t ?w1) url = utf8_encode result"
    using am(4) [OF t] bs by simp
  have "counter (sleep t ?w1) url = counter ?w1 url"
    using am(1) [of t] am(1) [of 0] by (simp add: sleep_def)
  with a have ok: "counter_ok (sleep t ?w1) url" by (simp add: counter_ok_def)
  from a have r: "unicode_text result" "result \<noteq> []" by simp_all
  show "fst (wrapper expiration func2 url (sleep t ?w1)) = Inr result"
    by (rule hit_of_encoded(1) [OF assms(1) ok c r])
qed

theorem hit_decodes_what_the_miss_encoded_witness:
  "unicode_text (str_lit ''http://x'') \<and> counter_ok fresh_world (str_lit ''http://x'')
   \<and> \<not> cache_hit fresh_world (str_lit ''http://x'')
   \<and> cached (sleep 3 (snd (wrapper 10 (returns 1 [0x20AC, 0x41]) (str_lit ''http://x'') fresh_world)))
        (str_lit ''http://x'') = Some [0xE2, 0x82, 0xAC, 0x41]
   \<and> fst (wrapper 10 (raises 1 Timeout) (str_lit ''http://x'')
            (sleep 3 (snd (wrapper 10 (returns 1 [0x20AC, 0x41]) (str_lit ''http://x'') fresh_world))))
       = Inr [0x20AC, 0x41]"
proof -
  let ?u = "str_lit ''http://x''"
  let ?w1 = "snd (wrapper 10 (returns 1 [0x20AC, 0x41]) ?u fresh_world)"
  have h: "unicode_text ?u" "counter_ok fresh_world ?u" by (simp_all add: eval_defs)
  have a: "\<not> cache_hit fresh_world ?u \<and> returns 1 [0x20AC, 0x41] ?u = (1, Inr [0x20AC, 0x41])
        \<and> unicode_text [0x20AC, 0x41] \<and> [0x20AC, 0x41 :: nat] \<noteq> [] \<and> (0::int) < 10 \<and> (3::nat) \<le> nat 10
        \<and> counter_ok ?w1 ?u"
    by (simp add: eval_defs)
  have e: "utf8_encode [0x20AC, 0x41] = Some [0xE2, 0x82, 0xAC, 0x41]"
    by (simp add: eval_defs)
  from hit_decodes_what_the_miss_encoded
         [where func = "returns 1 [0x20AC, 0x41]" and expiration = 10, OF h] a
  have "cached (sleep 3 ?w1) ?u = utf8_encode [0x20AC, 0x41]
      \<and> fst (wrapper 10 (raises 1 Timeout) ?u (sleep 3 ?w1)) = Inr [0x20AC, 0x41]"
    by blast
  with h a e show ?thesis by simp
qed

end
